theory Spec2Isabelle
  imports Main "HOL-Library.Word"
begin

section \<open>Strings and the regular expression of the directive scanner\<close>

text \<open>
  A JavaScript string is a sequence of UTF-16 code units. A regular expression without
  the \<^verbatim>\<open>u\<close> flag matches code unit by code unit, so a line of text is a list of
  16-bit words. \<open>js\<close> writes an ASCII literal as such a list.
\<close>

type_synonym jschar = "16 word"
type_synonym jsstring = "jschar list"

definition js :: "string \<Rightarrow> jsstring" where
  "js s = map (\<lambda>c. of_nat (of_char c)) s"

text \<open>
  The class \<^verbatim>\<open>\s\<close> of ECMAScript: the WhiteSpace and LineTerminator code points
  (TAB, LF, VT, FF, CR, SP, NBSP, U+1680, U+2000 to U+200A, U+2028, U+2029, U+202F,
  U+205F, U+3000, U+FEFF). The class \<^verbatim>\<open>\w\<close> is \<^verbatim>\<open>[A-Za-z0-9_]\<close>.
\<close>

definition isWhiteSpace :: "jschar \<Rightarrow> bool" where
  "isWhiteSpace c \<longleftrightarrow>
     c \<in> set [0x9, 0xA, 0xB, 0xC, 0xD, 0x20, 0xA0, 0x1680, 0x2028, 0x2029,
               0x202F, 0x205F, 0x3000, 0xFEFF]
     \<or> (0x2000 \<le> c \<and> c \<le> 0x200A)"

definition isWordChar :: "jschar \<Rightarrow> bool" where
  "isWordChar c \<longleftrightarrow>
     (0x61 \<le> c \<and> c \<le> 0x7A) \<or> (0x41 \<le> c \<and> c \<le> 0x5A) \<or> (0x30 \<le> c \<and> c \<le> 0x39) \<or> c = 0x5F"

text \<open>
  The fragment of the regular expression syntax that \<^verbatim>\<open>PREPROCESSOR_REGEX\<close> uses:
  \<^verbatim>\<open>^\<close>, \<^verbatim>\<open>\s\<close>, a literal character, the empty sequence, the greedy star,
  sequence, alternative and \<^verbatim>\<open>\b\<close>.
\<close>

datatype regex =
    Bol
  | WhiteSpace
  | Chr jschar
  | Eps
  | Star regex
  | Seq regex regex
  | Alt regex regex
  | WordBoundary

text \<open>
  A matcher state is the code unit before the current position (\<open>None\<close> at the start of
  the input) and the rest of the input. \<open>matches r st\<close> lists, in the order a backtracking
  matcher tries them, the states in which a match of \<open>r\<close> begun in \<open>st\<close> can end. An
  iteration of a star that consumes nothing is rejected, as in ECMAScript.
\<close>

type_synonym mstate = "jschar option \<times> jsstring"

fun matches :: "regex \<Rightarrow> mstate \<Rightarrow> mstate list" where
  "matches Bol (p, s) = (if p = None then [(p, s)] else [])"
| "matches WhiteSpace (p, s) =
     (case s of [] \<Rightarrow> [] | c # cs \<Rightarrow> if isWhiteSpace c then [(Some c, cs)] else [])"
| "matches (Chr a) (p, s) =
     (case s of [] \<Rightarrow> [] | c # cs \<Rightarrow> if c = a then [(Some c, cs)] else [])"
| "matches Eps (p, s) = [(p, s)]"
| "matches (Star r) (p, s) =
     concat (map (matches (Star r))
               (filter (\<lambda>(p', s'). length s' < length s) (matches r (p, s)))) @ [(p, s)]"
| "matches (Seq r1 r2) (p, s) = concat (map (matches r2) (matches r1 (p, s)))"
| "matches (Alt r1 r2) (p, s) = matches r1 (p, s) @ matches r2 (p, s)"
| "matches WordBoundary (p, s) =
     (let a = (case p of None \<Rightarrow> False | Some c \<Rightarrow> isWordChar c);
          b = (case s of [] \<Rightarrow> False | c # _ \<Rightarrow> isWordChar c)
      in if a \<noteq> b then [(p, s)] else [])"

text \<open>
  \<^verbatim>\<open>RegExp.prototype.test\<close> of a regular expression without the \<^verbatim>\<open>g\<close> and
  \<^verbatim>\<open>y\<close> flags: a match is tried at every start position, from the left.
\<close>

fun search :: "regex \<Rightarrow> jschar option \<Rightarrow> jsstring \<Rightarrow> bool" where
  "search r p s =
     (matches r (p, s) \<noteq> [] \<or> (case s of [] \<Rightarrow> False | c # cs \<Rightarrow> search r (Some c) cs))"

definition regex_test :: "regex \<Rightarrow> jsstring \<Rightarrow> bool" where
  "regex_test r s = search r None s"

definition lit :: "string \<Rightarrow> regex" where
  "lit s = foldr (\<lambda>c r. Seq (Chr (of_nat (of_char c))) r) s Eps"

text \<open>
  \<^verbatim>\<open>const PREPROCESSOR_REGEX = /^\s*#\s*(if|ifdef|ifndef|elif|else|endif)\b/;\<close>
\<close>

definition PREPROCESSOR_REGEX :: regex where
  "PREPROCESSOR_REGEX =
     Seq Bol (Seq (Star WhiteSpace) (Seq (Chr 0x23) (Seq (Star WhiteSpace)
       (Seq (Alt (lit ''if'') (Alt (lit ''ifdef'') (Alt (lit ''ifndef'')
               (Alt (lit ''elif'') (Alt (lit ''else'') (lit ''endif''))))))
            WordBoundary))))"

definition directive_keywords :: "jsstring list" where
  "directive_keywords = [js ''if'', js ''ifdef'', js ''ifndef'', js ''elif'', js ''else'', js ''endif'']"

section \<open>Documents, ranges and folding ranges\<close>

record Position =
  line :: nat
  character :: nat

record Range =
  range_start :: Position
  range_end :: Position

datatype FoldingRangeKind = Comment | Imports | Region

record FoldingRange =
  fold_start :: nat
  fold_end :: nat
  fold_kind :: FoldingRangeKind

text \<open>
  A document: the scheme of its URI, the key \<^verbatim>\<open>uri.fsPath.toLowerCase()\<close> under which
  the extension files it, its language and its lines.
\<close>

record TextDocument =
  uri_scheme :: jsstring
  docKey :: jsstring
  languageId :: jsstring
  doc_lines :: "jsstring list"

record TextLine =
  lineNumber :: nat
  line_text :: jsstring
  line_range :: Range

text \<open>
  \<^verbatim>\<open>lineAt(i)\<close> is only called with \<open>i\<close> below \<^verbatim>\<open>lineCount\<close>; the range of a
  line runs from its first to behind its last character.
\<close>

definition lineCount :: "TextDocument \<Rightarrow> nat" where
  "lineCount d = length (doc_lines d)"

definition lineAt :: "TextDocument \<Rightarrow> nat \<Rightarrow> TextLine" where
  "lineAt d i =
     \<lparr>lineNumber = i, line_text = doc_lines d ! i,
      line_range = \<lparr>range_start = \<lparr>line = i, character = 0\<rparr>,
                    range_end = \<lparr>line = i, character = length (doc_lines d ! i)\<rparr>\<rparr>\<rparr>"

text \<open>
  The constructor of a range in the editor's API orders its two positions: when the first
  is not before the second, they are exchanged.
\<close>

definition isBefore :: "Position \<Rightarrow> Position \<Rightarrow> bool" where
  "isBefore a b \<longleftrightarrow> line a < line b \<or> (line a = line b \<and> character a < character b)"

definition Range_new :: "Position \<Rightarrow> Position \<Rightarrow> Range" where
  "Range_new a b =
     (if isBefore a b then \<lparr>range_start = a, range_end = b\<rparr>
      else \<lparr>range_start = b, range_end = a\<rparr>)"

section \<open>The folding aggregator\<close>

text \<open>A JavaScript \<^verbatim>\<open>Set\<close> of numbers keeps its elements in insertion order, once each.\<close>

definition set_add :: "nat \<Rightarrow> nat list \<Rightarrow> nat list" where
  "set_add x xs = (if x \<in> set xs then xs else xs @ [x])"

text \<open>
  The grouping loop of \<^verbatim>\<open>collectHiddenFoldingRanges\<close> over the rest of the sorted
  lines, with its variables \<^verbatim>\<open>blockStart\<close>, \<^verbatim>\<open>blockEnd\<close> and
  \<^verbatim>\<open>foldingRanges\<close>; the last equation is the emission after the loop.
\<close>

fun group_blocks :: "nat list \<Rightarrow> nat \<Rightarrow> nat \<Rightarrow> FoldingRange list \<Rightarrow> FoldingRange list" where
  "group_blocks (x # xs) blockStart blockEnd foldingRanges =
     (if x = blockEnd + 1 then group_blocks xs blockStart x foldingRanges
      else group_blocks xs x x
             (if blockEnd > blockStart
              then foldingRanges @ [\<lparr>fold_start = blockStart, fold_end = blockEnd, fold_kind = Region\<rparr>]
              else foldingRanges))"
| "group_blocks [] blockStart blockEnd foldingRanges =
     (if blockEnd > blockStart
      then foldingRanges @ [\<lparr>fold_start = blockStart, fold_end = blockEnd, fold_kind = Region\<rparr>]
      else foldingRanges)"

text \<open>
  The two loops that fill \<^verbatim>\<open>hiddenLines\<close>: every line from
  \<^verbatim>\<open>range.start.line\<close> to \<^verbatim>\<open>range.end.line\<close> of each inactive range, then every
  line of the document whose text the directive pattern matches.
\<close>

definition hiddenLines :: "TextDocument \<Rightarrow> Range list \<Rightarrow> nat list" where
  "hiddenLines d inactiveRanges =
     (let h1 = foldl (\<lambda>h r. foldl (\<lambda>h i. set_add i h) h
                                [line (range_start r) ..< Suc (line (range_end r))])
                     [] inactiveRanges
      in foldl (\<lambda>h i. if regex_test PREPROCESSOR_REGEX (line_text (lineAt d i))
                       then set_add i h else h)
               h1 [0 ..< lineCount d])"

text \<open>
  \<^verbatim>\<open>if (hiddenLines.size === 0) { return []; }\<close>, then the lines sorted by
  \<^verbatim>\<open>(a, b) => a - b\<close>, then the grouping loop started at \<^verbatim>\<open>sorted[0]\<close>.
\<close>

definition collectHiddenFoldingRanges :: "TextDocument \<Rightarrow> Range list \<Rightarrow> FoldingRange list" where
  "collectHiddenFoldingRanges d inactiveRanges =
     (let h = hiddenLines d inactiveRanges in
      if length h = 0 then []
      else (case sort h of
              [] \<Rightarrow> []
            | x # xs \<Rightarrow> group_blocks xs x x []))"

section \<open>The state of the extension and its effects on the editor\<close>

datatype HideIfdefMode = visible | hidden | hiddenFolded

definition MODES :: "HideIfdefMode list" where
  "MODES = [visible, hidden, hiddenFolded]"

text \<open>\<^verbatim>\<open>Array.prototype.indexOf\<close>: the first index of the element, or \<open>-1\<close>.\<close>

fun indexOf_from :: "'a list \<Rightarrow> 'a \<Rightarrow> int \<Rightarrow> int" where
  "indexOf_from [] x i = - 1"
| "indexOf_from (y # ys) x i = (if y = x then i else indexOf_from ys x (i + 1))"

definition indexOf :: "'a list \<Rightarrow> 'a \<Rightarrow> int" where
  "indexOf xs x = indexOf_from xs x 0"

record TextEditorDecorationType =
  deco_key :: nat
  deco_opacity :: jsstring

record TextEditor =
  editor_id :: nat
  document :: TextDocument

text \<open>
  What the extension does to the editor and to its own cache, in program order. A command
  carries its \<^verbatim>\<open>selectionLines\<close> and \<^verbatim>\<open>levels\<close>.
\<close>

datatype effect =
    ExecuteCommand jsstring "nat list" nat
  | SetDecorations TextEditor TextEditorDecorationType "Range list"
  | CreateDecoration TextEditorDecorationType
  | DisposeDecoration TextEditorDecorationType
  | FoldingChangeFire
  | WorkspaceStateUpdate HideIfdefMode
  | StatusBarAssign HideIfdefMode
  | InactiveRegionsMapSet jsstring "Range list"
  | Timeout nat

text \<open>
  What the extension reads from the editor: the visible editors, the active one, and the two
  configured opacities after \<^verbatim>\<open>toString()\<close>.
\<close>

record host =
  visibleTextEditors :: "TextEditor list"
  activeTextEditor :: "TextEditor option"
  hideIfdefOpacity :: jsstring
  clangdOpacity :: jsstring

text \<open>
  The module's variables \<^verbatim>\<open>$inactiveRegionsMap\<close>, \<^verbatim>\<open>$lastDecoration\<close>,
  \<^verbatim>\<open>$lastOpacity\<close> and \<^verbatim>\<open>$hideIfdefMode\<close>, the number of decoration types created so
  far (each new one is a new object), and the effects so far.
\<close>

record ext_state =
  inactiveRegionsMap :: "jsstring \<rightharpoonup> Range list"
  lastDecoration :: "TextEditorDecorationType option"
  lastOpacity :: jsstring
  hideIfdefMode :: HideIfdefMode
  decorationsCreated :: nat
  trace :: "effect list"

definition emit :: "effect \<Rightarrow> ext_state \<Rightarrow> ext_state" where
  "emit e s = s\<lparr>trace := trace s @ [e]\<rparr>"

text \<open>\<^verbatim>\<open>$inactiveRegionsMap.set(k, v)\<close> and \<^verbatim>\<open>$inactiveRegionsMap.get(k) ?? []\<close>.\<close>

definition map_set :: "('k \<rightharpoonup> 'v) \<Rightarrow> 'k \<Rightarrow> 'v \<Rightarrow> ('k \<rightharpoonup> 'v)" where
  "map_set m k v = m(k \<mapsto> v)"

definition map_get_or_empty :: "('k \<rightharpoonup> 'v list) \<Rightarrow> 'k \<Rightarrow> 'v list" where
  "map_get_or_empty m k = (case m k of None \<Rightarrow> [] | Some v \<Rightarrow> v)"

text \<open>
  \<^verbatim>\<open>getDecoration\<close>: the cached decoration type is returned when there is one and
  \<^verbatim>\<open>$lastOpacity === targetOpacity\<close>; otherwise the cached one, if any, is disposed
  and a new one is created and cached.
\<close>

definition getDecoration :: "host \<Rightarrow> ext_state \<Rightarrow> TextEditorDecorationType \<times> ext_state" where
  "getDecoration h s =
     (let targetOpacity =
            (if hideIfdefMode s \<noteq> visible then hideIfdefOpacity h else clangdOpacity h)
      in case lastDecoration s of
           Some d \<Rightarrow>
             if lastOpacity s = targetOpacity then (d, s)
             else
               (let s1 = emit (DisposeDecoration d) s;
                    d' = \<lparr>deco_key = decorationsCreated s1, deco_opacity = targetOpacity\<rparr>;
                    s2 = emit (CreateDecoration d')
                           (s1\<lparr>lastDecoration := Some d',
                               decorationsCreated := Suc (decorationsCreated s1)\<rparr>)
                in (d', s2\<lparr>lastOpacity := targetOpacity\<rparr>))
         | None \<Rightarrow>
             (let d' = \<lparr>deco_key = decorationsCreated s, deco_opacity = targetOpacity\<rparr>;
                  s2 = emit (CreateDecoration d')
                         (s\<lparr>lastDecoration := Some d',
                            decorationsCreated := Suc (decorationsCreated s)\<rparr>)
              in (d', s2\<lparr>lastOpacity := targetOpacity\<rparr>)))"

text \<open>
  \<^verbatim>\<open>updateEditorDecoration\<close> and \<^verbatim>\<open>autoFoldHiddenRanges\<close> return at once when
  \<^verbatim>\<open>scheme !== "file" || !(languageId === "c" || languageId === "cpp")\<close>; a document
  is supported when that guard lets it through.
\<close>

definition supported :: "TextDocument \<Rightarrow> bool" where
  "supported d \<longleftrightarrow>
     \<not> (uri_scheme d \<noteq> js ''file'' \<or> \<not> (languageId d = js ''c'' \<or> languageId d = js ''cpp''))"

definition preprocessorRanges :: "TextDocument \<Rightarrow> Range list" where
  "preprocessorRanges d =
     map line_range
       (filter (\<lambda>l. regex_test PREPROCESSOR_REGEX (line_text l))
          (map (lineAt d) [0 ..< lineCount d]))"

text \<open>The range list that \<^verbatim>\<open>updateEditorDecoration\<close> passes to \<^verbatim>\<open>setDecorations\<close>.\<close>

definition decorationRanges :: "HideIfdefMode \<Rightarrow> Range list \<Rightarrow> Range list \<Rightarrow> Range list" where
  "decorationRanges m inactiveRanges preprocRanges =
     (if m \<noteq> visible then inactiveRanges @ preprocRanges else inactiveRanges)"

definition updateEditorDecoration ::
    "TextEditor \<Rightarrow> TextEditorDecorationType \<Rightarrow> ext_state \<Rightarrow> ext_state" where
  "updateEditorDecoration editor decorationType s =
     (if \<not> supported (document editor) then s
      else
        (let inactiveRanges = map_get_or_empty (inactiveRegionsMap s) (docKey (document editor));
             preprocRanges = preprocessorRanges (document editor)
         in emit (SetDecorations editor decorationType
                    (decorationRanges (hideIfdefMode s) inactiveRanges preprocRanges)) s))"

definition updateStatusBar :: "ext_state \<Rightarrow> ext_state" where
  "updateStatusBar s = emit (StatusBarAssign (hideIfdefMode s)) s"

record LspRange =
  lsp_start :: Position
  lsp_end :: Position

record InactiveRegionsParams =
  params_docKey :: jsstring
  params_regions :: "LspRange list"

section \<open>The asynchronous handlers\<close>

text \<open>
  The handlers are \<^verbatim>\<open>async\<close> functions. Between two \<^verbatim>\<open>await\<close>s a handler runs
  without interruption; at an \<^verbatim>\<open>await\<close> it is suspended, and other handlers may run
  and change \<^verbatim>\<open>$hideIfdefMode\<close> and \<^verbatim>\<open>$inactiveRegionsMap\<close> before it is resumed.
  A \<open>task\<close> is a suspended handler: the \<^verbatim>\<open>await\<close> it waits at, with the local
  variables that are live there.

  \<^item> \<open>ToggleAfterPersist previousMode\<close>: the toggle command at
    \<^verbatim>\<open>await context.workspaceState.update(...)\<close>.
  \<^item> \<open>UpdateActiveAfterActive previousMode decoration active\<close>: \<^verbatim>\<open>updateActiveEditor\<close>,
    called by the toggle command, at \<^verbatim>\<open>await updateEditorDecoration(active, decoration)\<close>.
  \<^item> \<open>UpdateActiveInLoop previousMode decoration editors\<close>: its loop over the other
    visible editors, at \<^verbatim>\<open>await updateEditorDecoration(editor, decoration)\<close>, with the
    editors still to come.
  \<^item> \<open>ToggleAfterUpdateActive previousMode\<close>: the toggle command at
    \<^verbatim>\<open>await updateActiveEditor()\<close>, when \<^verbatim>\<open>updateActiveEditor\<close> has returned.
  \<^item> \<open>ToggleUnfoldLoop editors\<close>: the unfold loop of the toggle command at
    \<^verbatim>\<open>await vscode.commands.executeCommand("editor.unfold", ...)\<close>.
  \<^item> \<open>AutoFoldTimer foldingRanges editors\<close>: \<^verbatim>\<open>autoFoldHiddenRanges\<close> at
    \<^verbatim>\<open>await new Promise(resolve => setTimeout(resolve, 100))\<close>, called from a loop
    \<^verbatim>\<open>for (const editor of ...) { await autoFoldHiddenRanges(editor); }\<close> with the
    editors still to come.
  \<^item> \<open>AutoFoldFolded editors\<close>: \<^verbatim>\<open>autoFoldHiddenRanges\<close> at
    \<^verbatim>\<open>await vscode.commands.executeCommand("editor.fold", ...)\<close>.
  \<^item> \<open>AutoFoldLoop editors\<close>: such a loop at \<^verbatim>\<open>await autoFoldHiddenRanges(editor)\<close>,
    when \<^verbatim>\<open>autoFoldHiddenRanges\<close> has returned.
  \<^item> \<open>NotifyUnfoldLoop key regions affectedEditors editors\<close>: the unfold loop of the
    notification handler at \<^verbatim>\<open>await vscode.commands.executeCommand("editor.unfold", ...)\<close>.
\<close>

datatype task =
    ToggleAfterPersist HideIfdefMode
  | UpdateActiveAfterActive HideIfdefMode TextEditorDecorationType TextEditor
  | UpdateActiveInLoop HideIfdefMode TextEditorDecorationType "TextEditor list"
  | ToggleAfterUpdateActive HideIfdefMode
  | ToggleUnfoldLoop "TextEditor list"
  | AutoFoldTimer "FoldingRange list" "TextEditor list"
  | AutoFoldFolded "TextEditor list"
  | AutoFoldLoop "TextEditor list"
  | NotifyUnfoldLoop jsstring "Range list" "TextEditor list" "TextEditor list"

text \<open>
  \<^verbatim>\<open>autoFoldHiddenRanges\<close> up to its first \<^verbatim>\<open>await\<close>: it returns at once (\<open>None\<close>)
  when the mode is not hiddenFolded, when the document is not supported or when there is no
  folding range; otherwise it starts the timer and is suspended with its
  \<^verbatim>\<open>foldingRanges\<close>. The mode is read here and not again after the timer.
\<close>

definition autoFoldHiddenRanges ::
    "TextEditor \<Rightarrow> ext_state \<Rightarrow> ext_state \<times> FoldingRange list option" where
  "autoFoldHiddenRanges editor s =
     (if hideIfdefMode s \<noteq> hiddenFolded then (s, None)
      else if \<not> supported (document editor) then (s, None)
      else
        (let inactiveRanges = map_get_or_empty (inactiveRegionsMap s) (docKey (document editor));
             foldingRanges = collectHiddenFoldingRanges (document editor) inactiveRanges
         in if length foldingRanges = 0 then (s, None)
            else (emit (Timeout 100) s, Some foldingRanges)))"

text \<open>
  \<^verbatim>\<open>for (const editor of editors) { await autoFoldHiddenRanges(editor); }\<close>, the last
  statement of the toggle command and of the notification handler, from the start of an
  iteration to the next \<^verbatim>\<open>await\<close>.
\<close>

fun autoFold_loop :: "TextEditor list \<Rightarrow> ext_state \<Rightarrow> ext_state \<times> task option" where
  "autoFold_loop [] s = (s, None)"
| "autoFold_loop (editor # editors) s =
     (case autoFoldHiddenRanges editor s of
        (s', Some foldingRanges) \<Rightarrow> (s', Some (AutoFoldTimer foldingRanges editors))
      | (s', None) \<Rightarrow> (s', Some (AutoFoldLoop editors)))"

text \<open>
  The end of the toggle command:
  \<^verbatim>\<open>if ($hideIfdefMode === "hiddenFolded") { for (...) { await autoFoldHiddenRanges(editor); } }\<close>.
\<close>

definition toggle_fold_phase :: "host \<Rightarrow> ext_state \<Rightarrow> ext_state \<times> task option" where
  "toggle_fold_phase h s =
     (if hideIfdefMode s = hiddenFolded then autoFold_loop (visibleTextEditors h) s
      else (s, None))"

text \<open>The unfold loop of the toggle command, from the start of an iteration.\<close>

fun toggle_unfold_loop ::
    "host \<Rightarrow> TextEditor list \<Rightarrow> ext_state \<Rightarrow> ext_state \<times> task option" where
  "toggle_unfold_loop h [] s = toggle_fold_phase h s"
| "toggle_unfold_loop h (editor # editors) s =
     (let key = docKey (document editor);
          inactiveRanges = map_get_or_empty (inactiveRegionsMap s) key;
          foldingRanges = collectHiddenFoldingRanges (document editor) inactiveRanges
      in if length foldingRanges > 0
         then (emit (ExecuteCommand (js ''editor.unfold'') (map fold_start foldingRanges) 1) s,
               Some (ToggleUnfoldLoop editors))
         else toggle_unfold_loop h editors s)"

text \<open>
  \<^verbatim>\<open>updateActiveEditor\<close>, called by the toggle command: its loop over the other visible
  editors from the start of an iteration, and the function from its start.
\<close>

definition updateActive_loop ::
    "HideIfdefMode \<Rightarrow> TextEditorDecorationType \<Rightarrow> TextEditor list \<Rightarrow> ext_state \<Rightarrow>
     ext_state \<times> task option" where
  "updateActive_loop previousMode decoration editors s =
     (case editors of
        [] \<Rightarrow> (s, Some (ToggleAfterUpdateActive previousMode))
      | editor # rest \<Rightarrow>
          (updateEditorDecoration editor decoration s,
           Some (UpdateActiveInLoop previousMode decoration rest)))"

definition updateActiveEditor ::
    "HideIfdefMode \<Rightarrow> host \<Rightarrow> ext_state \<Rightarrow> ext_state \<times> task option" where
  "updateActiveEditor previousMode h s =
     (let (decoration, s1) = getDecoration h s
      in case activeTextEditor h of
           Some active \<Rightarrow>
             (updateEditorDecoration active decoration s1,
              Some (UpdateActiveAfterActive previousMode decoration active))
         | None \<Rightarrow>
             updateActive_loop previousMode decoration
               (filter (\<lambda>e. Some e \<noteq> (None :: TextEditor option)) (visibleTextEditors h)) s1)"

text \<open>
  The notification handler from the cache write on: the write, the folding-change event,
  the decoration of the affected editors (not awaited) and the fold loop.
\<close>

definition notify_store ::
    "host \<Rightarrow> jsstring \<Rightarrow> Range list \<Rightarrow> TextEditor list \<Rightarrow> ext_state \<Rightarrow>
     ext_state \<times> task option" where
  "notify_store h key regions affectedEditors s =
     (let s2 = emit (InactiveRegionsMapSet key regions)
                 (s\<lparr>inactiveRegionsMap := map_set (inactiveRegionsMap s) key regions\<rparr>);
          s3 = emit FoldingChangeFire s2;
          s4 = foldl (\<lambda>s editor.
                        let (decoration, s') = getDecoration h s
                        in updateEditorDecoration editor decoration s') s3 affectedEditors
      in autoFold_loop affectedEditors s4)"

text \<open>The unfold loop of the notification handler, from the start of an iteration.\<close>

fun notify_unfold_loop ::
    "host \<Rightarrow> jsstring \<Rightarrow> Range list \<Rightarrow> TextEditor list \<Rightarrow> TextEditor list \<Rightarrow> ext_state \<Rightarrow>
     ext_state \<times> task option" where
  "notify_unfold_loop h key regions affectedEditors [] s =
     notify_store h key regions affectedEditors s"
| "notify_unfold_loop h key regions affectedEditors (editor # editors) s =
     (let oldRanges = map_get_or_empty (inactiveRegionsMap s) key;
          oldFolding = collectHiddenFoldingRanges (document editor) oldRanges
      in if length oldFolding > 0
         then (emit (ExecuteCommand (js ''editor.unfold'') (map fold_start oldFolding) 1) s,
               Some (NotifyUnfoldLoop key regions affectedEditors editors))
         else notify_unfold_loop h key regions affectedEditors editors s)"

text \<open>
  The handler of the notification \<^verbatim>\<open>textDocument/inactiveRegions\<close>, from its start to
  its first \<^verbatim>\<open>await\<close> (or its end). A notification carries the key of its document and
  the reported regions.
\<close>

definition onInactiveRegions ::
    "host \<Rightarrow> InactiveRegionsParams \<Rightarrow> ext_state \<Rightarrow> ext_state \<times> task option" where
  "onInactiveRegions h params s =
     (let key = params_docKey params;
          regions = map (\<lambda>region. Range_new (lsp_start region) (lsp_end region))
                      (params_regions params);
          affectedEditors = filter (\<lambda>e. docKey (document e) = key) (visibleTextEditors h)
      in if hideIfdefMode s = hiddenFolded
         then notify_unfold_loop h key regions affectedEditors affectedEditors s
         else notify_store h key regions affectedEditors s)"

text \<open>
  The command \<^verbatim>\<open>ifdef.toggle\<close>, from its start to its first \<^verbatim>\<open>await\<close>: the mode
  is advanced and the write of the workspace state is started.
\<close>

definition toggleCommand :: "host \<Rightarrow> ext_state \<Rightarrow> ext_state \<times> task option" where
  "toggleCommand h s =
     (let previousMode = hideIfdefMode s;
          currentIndex = indexOf MODES (hideIfdefMode s);
          s1 = s\<lparr>hideIfdefMode := MODES ! nat ((currentIndex + 1) mod int (length MODES))\<rparr>;
          s2 = emit (WorkspaceStateUpdate (hideIfdefMode s1)) s1
      in (s2, Some (ToggleAfterPersist previousMode)))"

text \<open>
  A suspended handler is resumed: it runs, in the state and with the editors of that
  moment, to its next \<^verbatim>\<open>await\<close> or to its end.
\<close>

fun resume :: "host \<Rightarrow> task \<Rightarrow> ext_state \<Rightarrow> ext_state \<times> task option" where
  "resume h (ToggleAfterPersist previousMode) s =
     updateActiveEditor previousMode h (updateStatusBar (emit FoldingChangeFire s))"
| "resume h (UpdateActiveAfterActive previousMode decoration active) s =
     updateActive_loop previousMode decoration
       (filter (\<lambda>e. e \<noteq> active) (visibleTextEditors h)) s"
| "resume h (UpdateActiveInLoop previousMode decoration editors) s =
     updateActive_loop previousMode decoration editors s"
| "resume h (ToggleAfterUpdateActive previousMode) s =
     (if hideIfdefMode s = visible \<and> previousMode = hiddenFolded
      then toggle_unfold_loop h (visibleTextEditors h) s
      else toggle_fold_phase h s)"
| "resume h (ToggleUnfoldLoop editors) s = toggle_unfold_loop h editors s"
| "resume h (AutoFoldTimer foldingRanges editors) s =
     (emit (ExecuteCommand (js ''editor.fold'') (map fold_start foldingRanges) 1) s,
      Some (AutoFoldFolded editors))"
| "resume h (AutoFoldFolded editors) s = (s, Some (AutoFoldLoop editors))"
| "resume h (AutoFoldLoop editors) s = autoFold_loop editors s"
| "resume h (NotifyUnfoldLoop key regions affectedEditors editors) s =
     notify_unfold_loop h key regions affectedEditors editors s"

text \<open>
  A handler that no other handler interrupts, with the same editors throughout: it is
  resumed until it ends. The bound counts the \<^verbatim>\<open>await\<close>s it can still reach.
\<close>

fun awaits_left :: "host \<Rightarrow> task \<Rightarrow> nat" where
  "awaits_left h (ToggleAfterPersist previousMode) = 5 * length (visibleTextEditors h) + 6"
| "awaits_left h (UpdateActiveAfterActive previousMode decoration active) =
     5 * length (visibleTextEditors h) + 5"
| "awaits_left h (UpdateActiveInLoop previousMode decoration editors) =
     4 * length (visibleTextEditors h) + 4 + length editors"
| "awaits_left h (ToggleAfterUpdateActive previousMode) = 4 * length (visibleTextEditors h) + 3"
| "awaits_left h (ToggleUnfoldLoop editors) =
     3 * length (visibleTextEditors h) + 2 + length editors"
| "awaits_left h (AutoFoldTimer foldingRanges editors) = 3 * length editors + 3"
| "awaits_left h (AutoFoldFolded editors) = 3 * length editors + 2"
| "awaits_left h (AutoFoldLoop editors) = 3 * length editors + 1"
| "awaits_left h (NotifyUnfoldLoop key regions affectedEditors editors) =
     3 * length affectedEditors + 2 + length editors"

text \<open>Every resumption brings a handler nearer to its end.\<close>

lemma autoFold_loop_awaits:
  "snd (autoFold_loop es s) = Some t \<Longrightarrow> awaits_left h t \<le> 3 * length es"
  by (cases es) (auto split: prod.splits option.splits)

lemma toggle_fold_phase_awaits:
  "snd (toggle_fold_phase h s) = Some t \<Longrightarrow> awaits_left h t \<le> 3 * length (visibleTextEditors h)"
  using autoFold_loop_awaits[of "visibleTextEditors h" s t h]
  by (auto simp: toggle_fold_phase_def split: if_splits)

lemma toggle_unfold_loop_awaits:
  "snd (toggle_unfold_loop h es s) = Some t \<Longrightarrow>
   awaits_left h t \<le> 3 * length (visibleTextEditors h) + 1 + length es"
proof (induction es)
  case Nil
  then show ?case using toggle_fold_phase_awaits[of h s t] by simp
next
  case (Cons e es)
  then show ?case by (auto simp: Let_def split: if_splits)
qed

lemma updateActive_loop_awaits:
  "snd (updateActive_loop p d es s) = Some t \<Longrightarrow>
   awaits_left h t \<le> 4 * length (visibleTextEditors h) + 3 + length es"
  by (cases es) (auto simp: updateActive_loop_def)

lemma updateActiveEditor_awaits:
  "snd (updateActiveEditor p h s) = Some t \<Longrightarrow>
   awaits_left h t \<le> 5 * length (visibleTextEditors h) + 5"
proof (cases "activeTextEditor h")
  case None
  assume a: "snd (updateActiveEditor p h s) = Some t"
  obtain d s1 where g: "getDecoration h s = (d, s1)" by (cases "getDecoration h s")
  have "snd (updateActive_loop p d (visibleTextEditors h) s1) = Some t"
    using a None g by (simp add: updateActiveEditor_def)
  from updateActive_loop_awaits[OF this, of h] show ?thesis by simp
next
  case (Some a)
  assume "snd (updateActiveEditor p h s) = Some t"
  then show ?thesis using Some
    by (auto simp: updateActiveEditor_def split_beta)
qed

lemma notify_store_awaits:
  "snd (notify_store h k r a s) = Some t \<Longrightarrow> awaits_left h t \<le> 3 * length a"
  unfolding notify_store_def Let_def by (rule autoFold_loop_awaits)

lemma notify_unfold_loop_awaits:
  "snd (notify_unfold_loop h k r a es s) = Some t \<Longrightarrow>
   awaits_left h t \<le> 3 * length a + 1 + length es"
proof (induction es)
  case Nil
  then show ?case using notify_store_awaits[of h k r a s t] by simp
next
  case (Cons e es)
  then show ?case by (auto simp: Let_def split: if_splits)
qed

lemma resume_awaits:
  "snd (resume h t s) = Some t' \<Longrightarrow> awaits_left h t' < awaits_left h t"
proof (cases t)
  case (ToggleAfterPersist p)
  assume "snd (resume h t s) = Some t'"
  then show ?thesis using ToggleAfterPersist
      updateActiveEditor_awaits[of p h "updateStatusBar (emit FoldingChangeFire s)" t']
    by simp
next
  case (UpdateActiveAfterActive p d a)
  assume "snd (resume h t s) = Some t'"
  then have b: "awaits_left h t' \<le> 4 * length (visibleTextEditors h) + 3 +
      length (filter (\<lambda>e. e \<noteq> a) (visibleTextEditors h))"
    using UpdateActiveAfterActive updateActive_loop_awaits by simp
  have f: "length (filter (\<lambda>e. e \<noteq> a) (visibleTextEditors h)) \<le> length (visibleTextEditors h)"
    by simp
  have "awaits_left h t = 5 * length (visibleTextEditors h) + 5"
    using UpdateActiveAfterActive by simp
  then show ?thesis using b f by linarith
next
  case (UpdateActiveInLoop p d es)
  assume "snd (resume h t s) = Some t'"
  then show ?thesis using UpdateActiveInLoop updateActive_loop_awaits[of p d es s t' h] by simp
next
  case (ToggleAfterUpdateActive p)
  assume "snd (resume h t s) = Some t'"
  then show ?thesis using ToggleAfterUpdateActive
      toggle_unfold_loop_awaits[of h "visibleTextEditors h" s t']
      toggle_fold_phase_awaits[of h s t']
    by (auto split: if_splits)
next
  case (ToggleUnfoldLoop es)
  assume "snd (resume h t s) = Some t'"
  then show ?thesis using ToggleUnfoldLoop toggle_unfold_loop_awaits[of h es s t'] by simp
next
  case (AutoFoldTimer fr es)
  assume "snd (resume h t s) = Some t'"
  then show ?thesis using AutoFoldTimer by auto
next
  case (AutoFoldFolded es)
  assume "snd (resume h t s) = Some t'"
  then show ?thesis using AutoFoldFolded by auto
next
  case (AutoFoldLoop es)
  assume "snd (resume h t s) = Some t'"
  then show ?thesis using AutoFoldLoop autoFold_loop_awaits[of es s t' h] by simp
next
  case (NotifyUnfoldLoop k r a es)
  assume "snd (resume h t s) = Some t'"
  then show ?thesis using NotifyUnfoldLoop notify_unfold_loop_awaits[of h k r a es s t'] by simp
qed

function run :: "host \<Rightarrow> ext_state \<times> task option \<Rightarrow> ext_state" where
  "run h (s, None) = s"
| "run h (s, Some t) = run h (resume h t s)"
  by pat_completeness auto
termination
proof (relation "measure (\<lambda>(h, st). case snd st of None \<Rightarrow> 0 | Some t \<Rightarrow> Suc (awaits_left h t))")
  show "wf (measure (\<lambda>(h, st). case snd st of None \<Rightarrow> 0 | Some t \<Rightarrow> Suc (awaits_left h t)))"
    by simp
next
  fix h :: host and s :: ext_state and t :: task
  show "((h, resume h t s), h, s, Some t)
        \<in> measure (\<lambda>(h, st). case snd st of None \<Rightarrow> 0 | Some t \<Rightarrow> Suc (awaits_left h t))"
    using resume_awaits[of h t s] by (auto split: option.splits)
qed

definition toggle_uninterrupted :: "host \<Rightarrow> ext_state \<Rightarrow> ext_state" where
  "toggle_uninterrupted h s = run h (toggleCommand h s)"

definition notification_uninterrupted ::
    "host \<Rightarrow> InactiveRegionsParams \<Rightarrow> ext_state \<Rightarrow> ext_state" where
  "notification_uninterrupted h params s = run h (onInactiveRegions h params s)"

text \<open>
  The tasks of a handler that has left its unfold loop: what is left of it is a loop of
  calls of \<^verbatim>\<open>autoFoldHiddenRanges\<close>.
\<close>

fun fold_phase :: "task \<Rightarrow> bool" where
  "fold_phase (AutoFoldTimer foldingRanges editors) = True"
| "fold_phase (AutoFoldFolded editors) = True"
| "fold_phase (AutoFoldLoop editors) = True"
| "fold_phase _ = False"

section \<open>Observations of a trace\<close>

fun unfold_commands :: "effect list \<Rightarrow> nat list list" where
  "unfold_commands [] = []"
| "unfold_commands (ExecuteCommand c ls n # es) =
     (if c = js ''editor.unfold'' then ls # unfold_commands es else unfold_commands es)"
| "unfold_commands (e # es) = unfold_commands es"

fun fold_commands :: "effect list \<Rightarrow> nat list list" where
  "fold_commands [] = []"
| "fold_commands (ExecuteCommand c ls n # es) =
     (if c = js ''editor.fold'' then ls # fold_commands es else fold_commands es)"
| "fold_commands (e # es) = fold_commands es"

fun cache_stores :: "effect list \<Rightarrow> (jsstring \<times> Range list) list" where
  "cache_stores [] = []"
| "cache_stores (InactiveRegionsMapSet k rs # es) = (k, rs) # cache_stores es"
| "cache_stores (e # es) = cache_stores es"

text \<open>The lines that a list of ranges covers, each range taken from its start line to its end line.\<close>

definition covered_lines :: "Range list \<Rightarrow> nat set" where
  "covered_lines rs =
     set (concat (map (\<lambda>r. [line (range_start r) ..< Suc (line (range_end r))]) rs))"

section \<open>A document of five lines\<close>

definition scenario_doc :: TextDocument where
  "scenario_doc =
     \<lparr>uri_scheme = js ''file'', docKey = js ''/src/a.c'', languageId = js ''c'',
      doc_lines = [js ''#if 1'', js ''int x;'', js ''#else'', js ''int y;'', js ''#endif'']\<rparr>"

definition scenario_region :: "nat \<Rightarrow> nat \<Rightarrow> Range" where
  "scenario_region c1 c2 =
     \<lparr>range_start = \<lparr>line = 2, character = c1\<rparr>, range_end = \<lparr>line = 3, character = c2\<rparr>\<rparr>"

definition scenario_editor :: TextEditor where
  "scenario_editor = \<lparr>editor_id = 0, document = scenario_doc\<rparr>"

definition scenario_state :: "HideIfdefMode \<Rightarrow> Range list \<Rightarrow> ext_state" where
  "scenario_state m rs =
     \<lparr>inactiveRegionsMap = [docKey scenario_doc \<mapsto> rs], lastDecoration = None,
      lastOpacity = [], hideIfdefMode = m, decorationsCreated = 0, trace = []\<rparr>"

definition scenario_host :: host where
  "scenario_host =
     \<lparr>visibleTextEditors = [scenario_editor], activeTextEditor = Some scenario_editor,
      hideIfdefOpacity = js ''0'', clangdOpacity = js ''0.55''\<rparr>"

definition empty_doc :: TextDocument where
  "empty_doc =
     \<lparr>uri_scheme = js ''file'', docKey = js ''/src/b.c'', languageId = js ''c'',
      doc_lines = [[]]\<rparr>"

section \<open>The directive scanner as the specification words it\<close>

text \<open>
  The specification's wording of the scanner, for comparison with \<^verbatim>\<open>PREPROCESSOR_REGEX\<close>:
  strip the leading whitespace, then an optional \<^verbatim>\<open>#\<close> with the spaces after it; the
  line is flagged when the rest starts with one of the six keywords.
\<close>

definition scanner_by_spec_words :: "jsstring \<Rightarrow> bool" where
  "scanner_by_spec_words s =
     (let t = dropWhile isWhiteSpace s;
          u = (case t of [] \<Rightarrow> t
               | c # cs \<Rightarrow> if c = 0x23 then dropWhile (\<lambda>c. c = 0x20) cs else t)
      in list_ex (\<lambda>kw. take (length kw) u = kw) directive_keywords)"

section \<open>Decoration effects\<close>

text \<open>
  The effects that only touch decorations, and the relation between a state and a later one
  that differs from it by such effects alone: mode and cache are the same.
\<close>

fun is_decoration_effect :: "effect \<Rightarrow> bool" where
  "is_decoration_effect (SetDecorations e d rs) = True"
| "is_decoration_effect (CreateDecoration d) = True"
| "is_decoration_effect (DisposeDecoration d) = True"
| "is_decoration_effect _ = False"

definition decorates :: "ext_state \<Rightarrow> ext_state \<Rightarrow> bool" where
  "decorates s s' \<longleftrightarrow>
     (\<exists>D. trace s' = trace s @ D \<and> list_all is_decoration_effect D) \<and>
     hideIfdefMode s' = hideIfdefMode s \<and> inactiveRegionsMap s' = inactiveRegionsMap s"

section \<open>More states and notifications for the five-line document\<close>

text \<open>
  A state with a cached decoration, and two notifications for the document: one that reports
  line 1 as inactive, one that reports the lines 2 and 3.
\<close>

definition scenario_cached_state :: ext_state where
  "scenario_cached_state =
     \<lparr>inactiveRegionsMap = Map.empty,
      lastDecoration = Some \<lparr>deco_key = 0, deco_opacity = js ''0''\<rparr>,
      lastOpacity = js ''0'', hideIfdefMode = hidden, decorationsCreated = 1, trace = []\<rparr>"

definition scenario_params :: InactiveRegionsParams where
  "scenario_params =
     \<lparr>params_docKey = js ''/src/a.c'',
      params_regions = [\<lparr>lsp_start = \<lparr>line = 1, character = 0\<rparr>,
                         lsp_end = \<lparr>line = 1, character = 6\<rparr>\<rparr>]\<rparr>"

definition scenario_params_else :: InactiveRegionsParams where
  "scenario_params_else =
     \<lparr>params_docKey = js ''/src/a.c'',
      params_regions = [\<lparr>lsp_start = \<lparr>line = 2, character = 0\<rparr>,
                         lsp_end = \<lparr>line = 3, character = 6\<rparr>\<rparr>]\<rparr>"

section \<open>Two interleavings of the handlers\<close>





text \<open>
  A toggle command that runs while \<^verbatim>\<open>autoFoldHiddenRanges\<close> waits for its timer. The
  mode is hiddenFolded and the cache is empty when the notification
  \<open>scenario_params_else\<close> arrives; the handler stores the regions and is suspended in
  \<^verbatim>\<open>autoFoldHiddenRanges\<close> at the timer of 100 ms (\<open>scenario_fold_parked\<close>). The toggle
  command runs from its start to its end (\<open>scenario_toggled_visible\<close>). Then the timer
  fires and \<^verbatim>\<open>autoFoldHiddenRanges\<close> is resumed (\<open>scenario_parked_fold_resumed\<close>).
\<close>

definition scenario_fold_parked :: "ext_state \<times> task option" where
  "scenario_fold_parked =
     onInactiveRegions scenario_host scenario_params_else (scenario_state hiddenFolded [])"

definition scenario_toggled_visible :: ext_state where
  "scenario_toggled_visible = toggle_uninterrupted scenario_host (fst scenario_fold_parked)"

definition scenario_parked_fold_resumed :: "ext_state \<times> task option" where
  "scenario_parked_fold_resumed =
     resume scenario_host
       (AutoFoldTimer [\<lparr>fold_start = 2, fold_end = 4, fold_kind = Region\<rparr>] [])
       scenario_toggled_visible"

section \<open>The folding aggregator: order and span of the blocks\<close>

lemma set_add_distinct: "distinct xs \<Longrightarrow> distinct (set_add x xs)"
  by (simp add: set_add_def)

lemma foldl_set_add_distinct:
  "distinct h \<Longrightarrow> distinct (foldl (\<lambda>h i. set_add i h) h ks)"
  by (induction ks arbitrary: h) (simp_all add: set_add_distinct)

lemma foldl_ranges_distinct:
  "distinct h \<Longrightarrow>
   distinct (foldl (\<lambda>h r. foldl (\<lambda>h i. set_add i h) h
                             [line (range_start r) ..< Suc (line (range_end r))]) h rs)"
  by (induction rs arbitrary: h) (simp_all add: foldl_set_add_distinct)

lemma foldl_cond_add_distinct:
  "distinct h \<Longrightarrow> distinct (foldl (\<lambda>h i. if P i then set_add i h else h) h ks)"
  by (induction ks arbitrary: h) (simp_all add: set_add_distinct)

lemma hiddenLines_distinct: "distinct (hiddenLines d rs)"
  unfolding hiddenLines_def Let_def
  by (rule foldl_cond_add_distinct, rule foldl_ranges_distinct) simp

lemma foldl_cond_add_none:
  "\<forall>i \<in> set ks. \<not> P i \<Longrightarrow> foldl (\<lambda>h i. if P i then set_add i h else h) h ks = h"
  by (induction ks arbitrary: h) simp_all

lemma hiddenLines_empty:
  assumes "\<forall>i < lineCount d. \<not> regex_test PREPROCESSOR_REGEX (line_text (lineAt d i))"
  shows "hiddenLines d [] = []"
proof -
  have "\<forall>i \<in> set [0 ..< lineCount d].
          \<not> regex_test PREPROCESSOR_REGEX (line_text (lineAt d i))"
    using assms by simp
  then show ?thesis
    unfolding hiddenLines_def Let_def by (simp add: foldl_cond_add_none)
qed

lemma snoc_block_sorted:
  assumes "sorted_wrt (<) (map fold_start acc)"
    and "\<forall>b \<in> set acc. fold_start b < fold_end b \<and> fold_end b < bs"
  shows "sorted_wrt (<)
           (map fold_start (acc @ [\<lparr>fold_start = bs, fold_end = be, fold_kind = Region\<rparr>]))"
proof -
  have "\<forall>b \<in> set acc. fold_start b < bs"
    using assms(2) by (meson less_trans)
  then show ?thesis using assms(1) by (simp add: sorted_wrt_append)
qed

text \<open>
  The invariant of the grouping loop: the blocks emitted so far are in order, each spans
  two lines or more and ends before the running block, and the running block ends before
  every line still to come.
\<close>

lemma group_blocks_inv:
  "sorted_wrt (<) (be # xs) \<Longrightarrow> bs \<le> be \<Longrightarrow>
   sorted_wrt (<) (map fold_start acc) \<Longrightarrow>
   \<forall>b \<in> set acc. fold_start b < fold_end b \<and> fold_end b < bs \<Longrightarrow>
   sorted_wrt (<) (map fold_start (group_blocks xs bs be acc)) \<and>
   (\<forall>b \<in> set (group_blocks xs bs be acc). fold_start b < fold_end b)"
proof (induction xs arbitrary: bs be acc)
  case Nil
  have "sorted_wrt (<)
          (map fold_start (acc @ [\<lparr>fold_start = bs, fold_end = be, fold_kind = Region\<rparr>]))"
    by (rule snoc_block_sorted[OF Nil.prems(3) Nil.prems(4)])
  then show ?case using Nil.prems by simp
next
  case (Cons x xs)
  show ?case
  proof (cases "x = be + 1")
    case True
    have "sorted_wrt (<) (x # xs)" using Cons.prems(1) by simp
    moreover have "bs \<le> x" using True Cons.prems(2) by simp
    ultimately show ?thesis
      using Cons.IH[of x bs acc] Cons.prems(3,4) True by simp
  next
    case False
    let ?acc = "(if be > bs
                 then acc @ [\<lparr>fold_start = bs, fold_end = be, fold_kind = Region\<rparr>]
                 else acc)"
    have lt: "be < x" using Cons.prems(1) by simp
    have 1: "sorted_wrt (<) (x # xs)" using Cons.prems(1) by simp
    have "sorted_wrt (<)
            (map fold_start (acc @ [\<lparr>fold_start = bs, fold_end = be, fold_kind = Region\<rparr>]))"
      by (rule snoc_block_sorted[OF Cons.prems(3) Cons.prems(4)])
    then have 2: "sorted_wrt (<) (map fold_start ?acc)"
      using Cons.prems(3) by simp
    have "\<forall>b \<in> set acc. fold_start b < fold_end b \<and> fold_end b < x"
      using Cons.prems(2,4) lt by (meson less_le_trans less_trans)
    then have 3: "\<forall>b \<in> set ?acc. fold_start b < fold_end b \<and> fold_end b < x"
      using lt by simp
    show ?thesis using Cons.IH[OF 1 _ 2 3] False by simp
  qed
qed

lemma collect_sorted_span:
  "sorted_wrt (<) (map fold_start (collectHiddenFoldingRanges d rs)) \<and>
   (\<forall>b \<in> set (collectHiddenFoldingRanges d rs). fold_start b < fold_end b)"
proof (cases "sort (hiddenLines d rs)")
  case Nil
  then show ?thesis by (simp add: collectHiddenFoldingRanges_def Let_def)
next
  case (Cons x xs)
  have "sorted_wrt (<) (sort (hiddenLines d rs))"
    by (simp add: strict_sorted_iff hiddenLines_distinct)
  then have s: "sorted_wrt (<) (x # xs)" using Cons by simp
  have "sorted_wrt (<) (map fold_start (group_blocks xs x x [])) \<and>
        (\<forall>b \<in> set (group_blocks xs x x []). fold_start b < fold_end b)"
    by (rule group_blocks_inv[OF s]) simp_all
  then show ?thesis using Cons by (simp add: collectHiddenFoldingRanges_def Let_def)
qed

lemma scenario_blocks:
  "collectHiddenFoldingRanges scenario_doc [scenario_region c1 c2] =
     [\<lparr>fold_start = 2, fold_end = 4, fold_kind = Region\<rparr>]"
  by code_simp

lemma empty_doc_no_directive:
  "\<forall>i < lineCount empty_doc.
     \<not> regex_test PREPROCESSOR_REGEX (line_text (lineAt empty_doc i))"
  by (simp add: lineCount_def empty_doc_def lineAt_def regex_test_def PREPROCESSOR_REGEX_def)

text \<open>
  Claim C1. For every document and every list of inactive ranges, the folding ranges that
  \<^verbatim>\<open>collectHiddenFoldingRanges\<close> returns are strictly ascending by start line, every one of
  them ends after the line it starts on, and when no line of the document is a directive
  and there is no inactive range the result is empty.
\<close>

theorem collectHiddenFoldingRanges_sorted_span:
  "sorted_wrt (<) (map fold_start (collectHiddenFoldingRanges d rs)) \<and>
   (\<forall>b \<in> set (collectHiddenFoldingRanges d rs). fold_end b > fold_start b) \<and>
   ((\<forall>i < lineCount d. \<not> regex_test PREPROCESSOR_REGEX (line_text (lineAt d i))) \<and> rs = []
      \<longrightarrow> collectHiddenFoldingRanges d rs = [])"
proof -
  have "collectHiddenFoldingRanges d [] = []"
    if "\<forall>i < lineCount d. \<not> regex_test PREPROCESSOR_REGEX (line_text (lineAt d i))"
    using hiddenLines_empty[OF that] by (simp add: collectHiddenFoldingRanges_def)
  then show ?thesis using collect_sorted_span[of d rs] by blast
qed

theorem collectHiddenFoldingRanges_sorted_span_witness:
  "collectHiddenFoldingRanges scenario_doc [scenario_region 0 6] =
     [\<lparr>fold_start = 2, fold_end = 4, fold_kind = Region\<rparr>] \<and>
   sorted_wrt (<) (map fold_start (collectHiddenFoldingRanges scenario_doc [scenario_region 0 6])) \<and>
   list_all (\<lambda>b. fold_end b > fold_start b)
     (collectHiddenFoldingRanges scenario_doc [scenario_region 0 6]) \<and>
   filter (\<lambda>i. regex_test PREPROCESSOR_REGEX (line_text (lineAt empty_doc i)))
     [0 ..< lineCount empty_doc] = [] \<and>
   collectHiddenFoldingRanges empty_doc [] = []"
  using collectHiddenFoldingRanges_sorted_span[of scenario_doc "[scenario_region 0 6]"]
    collectHiddenFoldingRanges_sorted_span[of empty_doc "[]"]
    scenario_blocks[of 0 6] empty_doc_no_directive
  by (simp add: list_all_iff filter_empty_conv)

section \<open>The document of five lines\<close>

lemma scenario_supported: "supported scenario_doc"
  by (simp add: supported_def scenario_doc_def js_def)

lemma scenario_preprocessorRanges:
  "preprocessorRanges scenario_doc =
     [\<lparr>range_start = \<lparr>line = 0, character = 0\<rparr>, range_end = \<lparr>line = 0, character = 5\<rparr>\<rparr>,
      \<lparr>range_start = \<lparr>line = 2, character = 0\<rparr>, range_end = \<lparr>line = 2, character = 5\<rparr>\<rparr>,
      \<lparr>range_start = \<lparr>line = 4, character = 0\<rparr>, range_end = \<lparr>line = 4, character = 6\<rparr>\<rparr>]"
  by code_simp

lemma scenario_flagged:
  "filter (\<lambda>i. regex_test PREPROCESSOR_REGEX (line_text (lineAt scenario_doc i)))
     [0 ..< lineCount scenario_doc] = [0, 2, 4]"
  by code_simp

lemma scenario_decoration:
  assumes "m \<noteq> visible"
  shows "trace (updateEditorDecoration scenario_editor dt
                  (scenario_state m [scenario_region c1 c2])) =
     [SetDecorations scenario_editor dt
        (scenario_region c1 c2 # preprocessorRanges scenario_doc)]"
proof -
  have de: "document scenario_editor = scenario_doc"
    by (simp add: scenario_editor_def)
  show ?thesis using assms
    by (simp add: updateEditorDecoration_def scenario_supported de Let_def emit_def
        decorationRanges_def map_get_or_empty_def scenario_state_def)
qed

lemma scenario_covered:
  "covered_lines (scenario_region c1 c2 # preprocessorRanges scenario_doc) = {0, 2, 3, 4}"
  unfolding scenario_preprocessorRanges
  by (auto simp: covered_lines_def scenario_region_def)

text \<open>
  Claim C3. In the document \<^verbatim>\<open>#if 1\<close>, \<^verbatim>\<open>int x;\<close>, \<^verbatim>\<open>#else\<close>, \<^verbatim>\<open>int y;\<close>,
  \<^verbatim>\<open>#endif\<close> with one inactive range from line 2 to line 3 (at any columns), the
  directive pattern matches exactly the lines 0, 2 and 4; in the modes hidden and
  hiddenFolded the ranges set as decorations are the inactive range and the ranges of these
  three lines, which cover exactly the lines 0, 2, 3 and 4; and the folding ranges are the
  single block from line 2 to line 4.
\<close>

theorem scenario_if_else_endif:
  "filter (\<lambda>i. regex_test PREPROCESSOR_REGEX (line_text (lineAt scenario_doc i)))
     [0 ..< lineCount scenario_doc] = [0, 2, 4] \<and>
   trace (updateEditorDecoration scenario_editor dt
            (scenario_state hidden [scenario_region c1 c2])) =
     [SetDecorations scenario_editor dt
        (scenario_region c1 c2 # preprocessorRanges scenario_doc)] \<and>
   trace (updateEditorDecoration scenario_editor dt
            (scenario_state hiddenFolded [scenario_region c1 c2])) =
     [SetDecorations scenario_editor dt
        (scenario_region c1 c2 # preprocessorRanges scenario_doc)] \<and>
   covered_lines (scenario_region c1 c2 # preprocessorRanges scenario_doc) = {0, 2, 3, 4} \<and>
   collectHiddenFoldingRanges scenario_doc [scenario_region c1 c2] =
     [\<lparr>fold_start = 2, fold_end = 4, fold_kind = Region\<rparr>]"
  by (simp add: scenario_flagged scenario_decoration scenario_covered scenario_blocks)

section \<open>The directive pattern\<close>

text \<open>
  The equations of the star and of the search are applied by hand from here on: on an input
  that is not a literal the simplifier would unfold them without end.
\<close>

declare matches.simps(5) [simp del]

declare search.simps [simp del]

lemma mem_Seq:
  "x \<in> set (matches (Seq r1 r2) st) \<longleftrightarrow>
     (\<exists>q t. (q, t) \<in> set (matches r1 st) \<and> x \<in> set (matches r2 (q, t)))"
  by (cases st) auto

lemma mem_Alt:
  "x \<in> set (matches (Alt r1 r2) st) \<longleftrightarrow> x \<in> set (matches r1 st) \<or> x \<in> set (matches r2 st)"
  by (cases st) auto

lemma mem_Bol: "x \<in> set (matches Bol (p, s)) \<longleftrightarrow> p = None \<and> x = (None, s)"
  by auto

lemma mem_Chr: "x \<in> set (matches (Chr a) (p, s)) \<longleftrightarrow> (\<exists>t. s = a # t \<and> x = (Some a, t))"
  by (cases s) auto

lemma mem_Eps: "x \<in> set (matches Eps (p, s)) \<longleftrightarrow> x = (p, s)"
  by auto

lemma mem_WordBoundary:
  "x \<in> set (matches WordBoundary (p, s)) \<longleftrightarrow>
     x = (p, s) \<and> (case p of None \<Rightarrow> False | Some c \<Rightarrow> isWordChar c) \<noteq>
                  (case s of [] \<Rightarrow> False | c # _ \<Rightarrow> isWordChar c)"
  by (auto simp: Let_def)

lemma Star_WhiteSpace_Nil: "matches (Star WhiteSpace) (p, []) = [(p, [])]"
  by (subst matches.simps(5)) simp

lemma Star_WhiteSpace_Cons:
  "matches (Star WhiteSpace) (p, c # cs) =
     (if isWhiteSpace c then matches (Star WhiteSpace) (Some c, cs) @ [(p, c # cs)]
      else [(p, c # cs)])"
  by (subst matches.simps(5)) simp

lemma mem_Star_WhiteSpace:
  "x \<in> set (matches (Star WhiteSpace) (p, s)) \<longleftrightarrow>
     (\<exists>ws t. s = ws @ t \<and> list_all isWhiteSpace ws \<and>
              x = (if ws = [] then p else Some (last ws), t))"
proof (induction s arbitrary: p)
  case Nil
  show ?case unfolding Star_WhiteSpace_Nil by auto
next
  case (Cons c cs)
  show ?case
  proof (cases "isWhiteSpace c")
    case False
    have "(\<exists>ws t. c # cs = ws @ t \<and> list_all isWhiteSpace ws \<and>
              x = (if ws = [] then p else Some (last ws), t)) \<longleftrightarrow> x = (p, c # cs)"
    proof
      assume "\<exists>ws t. c # cs = ws @ t \<and> list_all isWhiteSpace ws \<and>
              x = (if ws = [] then p else Some (last ws), t)"
      then obtain ws t where h: "c # cs = ws @ t" "list_all isWhiteSpace ws"
        "x = (if ws = [] then p else Some (last ws), t)" by blast
      have "ws = []" using h(1,2) False by (cases ws) auto
      then show "x = (p, c # cs)" using h by simp
    next
      assume "x = (p, c # cs)"
      then have "c # cs = [] @ (c # cs) \<and> list_all isWhiteSpace [] \<and>
              x = (if [] = ([]::jsstring) then p else Some (last []), c # cs)" by simp
      then show "\<exists>ws t. c # cs = ws @ t \<and> list_all isWhiteSpace ws \<and>
              x = (if ws = [] then p else Some (last ws), t)" by blast
    qed
    then show ?thesis unfolding Star_WhiteSpace_Cons using False by simp
  next
    case True
    have "(\<exists>ws t. c # cs = ws @ t \<and> list_all isWhiteSpace ws \<and>
              x = (if ws = [] then p else Some (last ws), t)) \<longleftrightarrow>
          x = (p, c # cs) \<or> (\<exists>ws t. cs = ws @ t \<and> list_all isWhiteSpace ws \<and>
              x = (if ws = [] then Some c else Some (last ws), t))" (is "?L \<longleftrightarrow> ?R")
    proof
      assume ?L
      then obtain ws t where h: "c # cs = ws @ t" "list_all isWhiteSpace ws"
        "x = (if ws = [] then p else Some (last ws), t)" by blast
      show ?R
      proof (cases ws)
        case Nil
        then show ?thesis using h by simp
      next
        case (Cons w ws')
        then have "cs = ws' @ t \<and> list_all isWhiteSpace ws' \<and>
              x = (if ws' = [] then Some c else Some (last ws'), t)" using h by auto
        then show ?thesis by blast
      qed
    next
      assume ?R
      then show ?L
      proof
        assume "x = (p, c # cs)"
        then have "c # cs = [] @ (c # cs) \<and> list_all isWhiteSpace [] \<and>
              x = (if [] = ([]::jsstring) then p else Some (last []), c # cs)" by simp
        then show ?L by blast
      next
        assume "\<exists>ws t. cs = ws @ t \<and> list_all isWhiteSpace ws \<and>
              x = (if ws = [] then Some c else Some (last ws), t)"
        then obtain ws t where h: "cs = ws @ t" "list_all isWhiteSpace ws"
              "x = (if ws = [] then Some c else Some (last ws), t)" by blast
        have "c # cs = (c # ws) @ t \<and> list_all isWhiteSpace (c # ws) \<and>
              x = (if c # ws = [] then p else Some (last (c # ws)), t)"
          using h True by simp
        then show ?L by blast
      qed
    qed
    then show ?thesis unfolding Star_WhiteSpace_Cons using True Cons.IH[of "Some c"] by auto
  qed
qed


lemma lit_Nil: "lit [] = Eps"
  by (simp add: lit_def)

lemma lit_Cons: "lit (c # cs) = Seq (Chr (of_nat (of_char c))) (lit cs)"
  by (simp add: lit_def)

lemma js_Cons: "js (c # cs) = of_nat (of_char c) # js cs"
  by (simp add: js_def)

lemma js_Nil: "js [] = []"
  by (simp add: js_def)

lemma mem_lit:
  "x \<in> set (matches (lit str) (p, s)) \<longleftrightarrow>
     (\<exists>t. s = js str @ t \<and> x = (if str = [] then p else Some (last (js str)), t))"
proof (induction str arbitrary: p s)
  case Nil
  show ?case by (simp add: lit_Nil js_Nil)
next
  case (Cons c cs)
  show ?case
    unfolding lit_Cons mem_Seq mem_Chr Cons.IH js_Cons
    by (cases cs) (auto simp: js_Nil js_Cons)
qed

lemma search_Bol_Some: "\<not> search (Seq Bol r) (Some c) s"
proof (induction s arbitrary: c)
  case Nil
  show ?case by (subst search.simps) simp
next
  case (Cons a s)
  show ?case by (subst search.simps) (simp add: Cons.IH)
qed

lemma test_Bol:
  "regex_test (Seq Bol r) s \<longleftrightarrow> (\<exists>x. x \<in> set (matches r (None, s)))"
proof -
  have "regex_test (Seq Bol r) s \<longleftrightarrow> matches (Seq Bol r) (None, s) \<noteq> []"
    unfolding regex_test_def
    by (subst search.simps) (simp add: search_Bol_Some split: list.split)
  also have "\<dots> \<longleftrightarrow> matches r (None, s) \<noteq> []" by simp
  also have "\<dots> \<longleftrightarrow> (\<exists>x. x \<in> set (matches r (None, s)))"
    by (cases "matches r (None, s)") auto
  finally show ?thesis .
qed

lemma keywords_last_isWordChar:
  "kw \<in> set directive_keywords \<Longrightarrow> kw \<noteq> [] \<and> isWordChar (last kw)"
  by (auto simp: directive_keywords_def js_def isWordChar_def)

lemma mem_keywords:
  "x \<in> set (matches (Alt (lit ''if'') (Alt (lit ''ifdef'') (Alt (lit ''ifndef'')
               (Alt (lit ''elif'') (Alt (lit ''else'') (lit ''endif'')))))) (p, s)) \<longleftrightarrow>
   (\<exists>kw t. kw \<in> set directive_keywords \<and> s = kw @ t \<and> x = (Some (last kw), t))"
  unfolding mem_Alt mem_lit directive_keywords_def
  by auto

lemma directive_regex_iff:
  "regex_test PREPROCESSOR_REGEX s \<longleftrightarrow>
     (\<exists>ws1 ws2 kw rest.
        s = ws1 @ 0x23 # ws2 @ kw @ rest \<and> list_all isWhiteSpace ws1 \<and>
        list_all isWhiteSpace ws2 \<and> kw \<in> set directive_keywords \<and>
        (rest = [] \<or> \<not> isWordChar (hd rest)))" (is "?L \<longleftrightarrow> ?R")
proof
  assume ?L
  then obtain x where "x \<in> set (matches (Seq (Star WhiteSpace) (Seq (Chr 0x23) (Seq (Star WhiteSpace)
       (Seq (Alt (lit ''if'') (Alt (lit ''ifdef'') (Alt (lit ''ifndef'')
               (Alt (lit ''elif'') (Alt (lit ''else'') (lit ''endif''))))))
            WordBoundary)))) (None, s))"
    unfolding PREPROCESSOR_REGEX_def test_Bol by blast
  then obtain q1 t1 q2 t2 q3 t3 q4 t4 where
    a: "(q1, t1) \<in> set (matches (Star WhiteSpace) (None, s))" and
    b: "(q2, t2) \<in> set (matches (Chr 0x23) (q1, t1))" and
    c: "(q3, t3) \<in> set (matches (Star WhiteSpace) (q2, t2))" and
    d: "(q4, t4) \<in> set (matches (Alt (lit ''if'') (Alt (lit ''ifdef'') (Alt (lit ''ifndef'')
               (Alt (lit ''elif'') (Alt (lit ''else'') (lit ''endif'')))))) (q3, t3))" and
    e: "x \<in> set (matches WordBoundary (q4, t4))"
    unfolding mem_Seq by blast
  from a obtain ws1 where a': "s = ws1 @ t1" "list_all isWhiteSpace ws1"
    unfolding mem_Star_WhiteSpace by blast
  from b have b': "t1 = 0x23 # t2" unfolding mem_Chr by blast
  from c obtain ws2 where c': "t2 = ws2 @ t3" "list_all isWhiteSpace ws2"
    unfolding mem_Star_WhiteSpace by blast
  from d obtain kw where d': "kw \<in> set directive_keywords" "t3 = kw @ t4" "q4 = Some (last kw)"
    unfolding mem_keywords by blast
  from e have "isWordChar (last kw) \<noteq> (case t4 of [] \<Rightarrow> False | c # _ \<Rightarrow> isWordChar c)"
    unfolding mem_WordBoundary d'(3) by simp
  then have e': "t4 = [] \<or> \<not> isWordChar (hd t4)"
    using keywords_last_isWordChar[OF d'(1)] by (cases t4) auto
  have "s = ws1 @ 0x23 # ws2 @ kw @ t4" using a'(1) b' c'(1) d'(2) by simp
  then show ?R using a'(2) c'(2) d'(1) e' by blast
next
  assume ?R
  then obtain ws1 ws2 kw rest where
    h: "s = ws1 @ 0x23 # ws2 @ kw @ rest" "list_all isWhiteSpace ws1"
       "list_all isWhiteSpace ws2" "kw \<in> set directive_keywords"
       "rest = [] \<or> \<not> isWordChar (hd rest)" by blast
  have a: "(if ws1 = [] then None else Some (last ws1), 0x23 # ws2 @ kw @ rest)
             \<in> set (matches (Star WhiteSpace) (None, s))"
    unfolding mem_Star_WhiteSpace using h(1,2) by blast
  have b: "(Some 0x23, ws2 @ kw @ rest) \<in> set (matches (Chr 0x23) (q, 0x23 # ws2 @ kw @ rest))" for q
    unfolding mem_Chr by simp
  have c: "(if ws2 = [] then Some 0x23 else Some (last ws2), kw @ rest)
             \<in> set (matches (Star WhiteSpace) (Some 0x23, ws2 @ kw @ rest))"
    unfolding mem_Star_WhiteSpace using h(3) by blast
  have d: "(Some (last kw), rest) \<in> set (matches (Alt (lit ''if'') (Alt (lit ''ifdef'') (Alt (lit ''ifndef'')
               (Alt (lit ''elif'') (Alt (lit ''else'') (lit ''endif'')))))) (q, kw @ rest))" for q
    unfolding mem_keywords using h(4) by blast
  have e: "(Some (last kw), rest) \<in> set (matches WordBoundary (Some (last kw), rest))"
    unfolding mem_WordBoundary using keywords_last_isWordChar[OF h(4)] h(5)
    by (cases rest) auto
  have "(Some (last kw), rest) \<in> set (matches (Seq (Star WhiteSpace) (Seq (Chr 0x23) (Seq (Star WhiteSpace)
       (Seq (Alt (lit ''if'') (Alt (lit ''ifdef'') (Alt (lit ''ifndef'')
               (Alt (lit ''elif'') (Alt (lit ''else'') (lit ''endif''))))))
            WordBoundary)))) (None, s))"
    unfolding mem_Seq using a b c d e by blast
  then show ?L unfolding PREPROCESSOR_REGEX_def test_Bol by blast
qed

lemma hash_not_space: "\<not> isWhiteSpace 0x23"
  by (simp add: isWhiteSpace_def)

lemma wordchar_not_space: "isWordChar c \<Longrightarrow> \<not> isWhiteSpace c"
  unfolding isWordChar_def isWhiteSpace_def
  by (auto simp: word_le_nat_alt)

lemma keywords_wordchars:
  "kw \<in> set directive_keywords \<Longrightarrow> list_all isWordChar kw"
  by (auto simp: directive_keywords_def js_def isWordChar_def)

lemma takeWhile_word:
  assumes "list_all isWordChar w" "rest = [] \<or> \<not> isWordChar (hd rest)"
  shows "takeWhile isWordChar (w @ rest) = w"
proof -
  have "takeWhile isWordChar rest = []" using assms(2) by (cases rest) auto
  then show ?thesis using assms(1) by (simp add: takeWhile_append2 list_all_iff)
qed

lemma dropWhile_space:
  assumes "list_all isWhiteSpace ws" "t = [] \<or> \<not> isWhiteSpace (hd t)"
  shows "dropWhile isWhiteSpace (ws @ t) = t"
proof -
  have "dropWhile isWhiteSpace t = t" using assms(2) by (cases t) auto
  then show ?thesis using assms(1) by (simp add: dropWhile_append2 list_all_iff)
qed

lemma directive_regex_fun:
  "regex_test PREPROCESSOR_REGEX s \<longleftrightarrow>
     (case dropWhile isWhiteSpace s of
        [] \<Rightarrow> False
      | c # r \<Rightarrow> c = 0x23 \<and>
          takeWhile isWordChar (dropWhile isWhiteSpace r) \<in> set directive_keywords)"
  (is "?L \<longleftrightarrow> ?R")
proof
  assume ?L
  then obtain ws1 ws2 kw rest where
    h: "s = ws1 @ 0x23 # ws2 @ kw @ rest" "list_all isWhiteSpace ws1"
       "list_all isWhiteSpace ws2" "kw \<in> set directive_keywords"
       "rest = [] \<or> \<not> isWordChar (hd rest)"
    unfolding directive_regex_iff by blast
  have kw: "kw \<noteq> []" "list_all isWordChar kw"
    using keywords_last_isWordChar[OF h(4)] keywords_wordchars[OF h(4)] by simp_all
  then have "isWordChar (hd kw)" by (cases kw) auto
  then have hk: "\<not> isWhiteSpace (hd (kw @ rest))"
    using kw(1) wordchar_not_space by simp
  have 1: "dropWhile isWhiteSpace s = 0x23 # ws2 @ kw @ rest"
    unfolding h(1) by (rule dropWhile_space[OF h(2)]) (simp add: hash_not_space)
  have 2: "dropWhile isWhiteSpace (ws2 @ kw @ rest) = kw @ rest"
    by (rule dropWhile_space[OF h(3)]) (use hk in simp)
  have 3: "takeWhile isWordChar (kw @ rest) = kw"
    by (rule takeWhile_word[OF kw(2) h(5)])
  show ?R unfolding 1 by (simp add: 2 3 h(4))
next
  assume r: ?R
  then obtain r where 1: "dropWhile isWhiteSpace s = 0x23 # r"
    and 2: "takeWhile isWordChar (dropWhile isWhiteSpace r) \<in> set directive_keywords"
    by (cases "dropWhile isWhiteSpace s") auto
  let ?ws1 = "takeWhile isWhiteSpace s"
  let ?ws2 = "takeWhile isWhiteSpace r"
  let ?u = "dropWhile isWhiteSpace r"
  let ?kw = "takeWhile isWordChar ?u"
  let ?rest = "dropWhile isWordChar ?u"
  have "s = ?ws1 @ dropWhile isWhiteSpace s" by simp
  also have "\<dots> = ?ws1 @ 0x23 # r" using 1 by simp
  also have "r = ?ws2 @ ?u" by simp
  also have "?u = ?kw @ ?rest" by simp
  finally have a: "s = ?ws1 @ 0x23 # ?ws2 @ ?kw @ ?rest" .
  have b: "list_all isWhiteSpace ?ws1" "list_all isWhiteSpace ?ws2"
    by (auto simp: list_all_iff dest: set_takeWhileD)
  have c: "?rest = [] \<or> \<not> isWordChar (hd ?rest)"
    by (metis hd_dropWhile)
  show ?L unfolding directive_regex_iff using a b 2 c by blast
qed

lemma word_after_hash:
  assumes "list_all isWhiteSpace ws1" "list_all isWhiteSpace ws2"
    "w \<noteq> []" "list_all isWordChar w" "rest = [] \<or> \<not> isWordChar (hd rest)"
  shows "regex_test PREPROCESSOR_REGEX (ws1 @ 0x23 # ws2 @ w @ rest) \<longleftrightarrow>
         w \<in> set directive_keywords"
proof -
  have "isWordChar (hd w)" using assms(3,4) by (cases w) auto
  then have hk: "\<not> isWhiteSpace (hd (w @ rest))"
    using assms(3) wordchar_not_space by simp
  have 1: "dropWhile isWhiteSpace (ws1 @ 0x23 # ws2 @ w @ rest) = 0x23 # ws2 @ w @ rest"
    by (rule dropWhile_space[OF assms(1)]) (simp add: hash_not_space)
  have 2: "dropWhile isWhiteSpace (ws2 @ w @ rest) = w @ rest"
    by (rule dropWhile_space[OF assms(2)]) (use hk in simp)
  have 3: "takeWhile isWordChar (w @ rest) = w"
    by (rule takeWhile_word[OF assms(4,5)])
  show ?thesis unfolding directive_regex_fun 1 by (simp add: 2 3)
qed

lemma no_hash_not_flagged: "0x23 \<notin> set s \<Longrightarrow> \<not> regex_test PREPROCESSOR_REGEX s"
  unfolding directive_regex_iff by auto

text \<open>
  Claim C4, as the specification states it, fails: the line \<^verbatim>\<open>if x\<close> has no
  \<^verbatim>\<open>#\<close>; the wording of the specification flags it and the pattern of the code does
  not.
\<close>

theorem scanner_spec_words_counterexample:
  "scanner_by_spec_words (js ''if x'') \<and> \<not> regex_test PREPROCESSOR_REGEX (js ''if x'')"
  by code_simp

text \<open>
  Claim C4, amended. A line is flagged exactly when it consists of whitespace, the character
  \<^verbatim>\<open>#\<close>, whitespace, one of the six keywords and a rest that is empty or begins with a
  character that is not a word character. The \<^verbatim>\<open>#\<close> is required: a line without it is
  never flagged.
\<close>

theorem directive_scanner_flags:
  "(regex_test PREPROCESSOR_REGEX s \<longleftrightarrow>
      (\<exists>ws1 ws2 kw rest.
         s = ws1 @ 0x23 # ws2 @ kw @ rest \<and> list_all isWhiteSpace ws1 \<and>
         list_all isWhiteSpace ws2 \<and> kw \<in> set directive_keywords \<and>
         (rest = [] \<or> \<not> isWordChar (hd rest)))) \<and>
   (0x23 \<notin> set s \<longrightarrow> \<not> regex_test PREPROCESSOR_REGEX s)"
  using directive_regex_iff[of s] no_hash_not_flagged[of s] by blast

theorem directive_scanner_flags_witness:
  "0x23 \<notin> set (js ''if x'') \<and> \<not> regex_test PREPROCESSOR_REGEX (js ''if x'')"
proof -
  have h: "0x23 \<notin> set (js ''if x'')" by (simp add: js_def)
  have "0x23 \<notin> set (js ''if x'') \<longrightarrow> \<not> regex_test PREPROCESSOR_REGEX (js ''if x'')"
    by (rule conjunct2[OF directive_scanner_flags[of "js ''if x''"]])
  then show ?thesis using h by blast
qed

text \<open>
  Claim C10. After whitespace, \<^verbatim>\<open>#\<close> and whitespace, let a non-empty run of word
  characters stand, followed by nothing or by a character that is not a word character.
  The line is flagged exactly when that whole run is one of the six keywords: a keyword
  followed by more word characters is not enough. So \<^verbatim>\<open>#iffy\<close> and
  \<^verbatim>\<open>#endiffoo\<close> are not flagged, and \<^verbatim>\<open>#ifdef X\<close> is.
\<close>

theorem directive_keyword_word_boundary:
  "(list_all isWhiteSpace ws1 \<and> list_all isWhiteSpace ws2 \<and> w \<noteq> [] \<and>
    list_all isWordChar w \<and> (rest = [] \<or> \<not> isWordChar (hd rest)) \<longrightarrow>
      (regex_test PREPROCESSOR_REGEX (ws1 @ 0x23 # ws2 @ w @ rest) \<longleftrightarrow>
       w \<in> set directive_keywords)) \<and>
   \<not> regex_test PREPROCESSOR_REGEX (js ''#iffy'') \<and>
   \<not> regex_test PREPROCESSOR_REGEX (js ''#endiffoo'') \<and>
   regex_test PREPROCESSOR_REGEX (js ''#ifdef X'')"
proof -
  have 1: "\<not> regex_test PREPROCESSOR_REGEX (js ''#iffy'')" by code_simp
  have 2: "\<not> regex_test PREPROCESSOR_REGEX (js ''#endiffoo'')" by code_simp
  have 3: "regex_test PREPROCESSOR_REGEX (js ''#ifdef X'')" by code_simp
  show ?thesis using word_after_hash[of ws1 ws2 w rest] 1 2 3 by blast
qed

theorem directive_keyword_word_boundary_witness:
  "list_all isWordChar (js ''iffy'') \<and> js ''iffy'' \<notin> set directive_keywords \<and>
   \<not> regex_test PREPROCESSOR_REGEX (0x23 # js ''iffy'')"
  using directive_keyword_word_boundary[of "[]" "[]" "js ''iffy''" "[]"]
  by (simp add: js_def isWordChar_def directive_keywords_def)


section \<open>The state machine: modes, cache, decorations and commands\<close>

lemma emit_simps [simp]:
  "trace (emit e s) = trace s @ [e]"
  "hideIfdefMode (emit e s) = hideIfdefMode s"
  "inactiveRegionsMap (emit e s) = inactiveRegionsMap s"
  "lastDecoration (emit e s) = lastDecoration s"
  "lastOpacity (emit e s) = lastOpacity s"
  "decorationsCreated (emit e s) = decorationsCreated s"
  by (simp_all add: emit_def)

lemma getDecoration_keeps [simp]:
  "hideIfdefMode (snd (getDecoration h s)) = hideIfdefMode s"
  "inactiveRegionsMap (snd (getDecoration h s)) = inactiveRegionsMap s"
  by (simp_all add: getDecoration_def Let_def split: option.split)

lemma updateEditorDecoration_keeps [simp]:
  "hideIfdefMode (updateEditorDecoration e d s) = hideIfdefMode s"
  "inactiveRegionsMap (updateEditorDecoration e d s) = inactiveRegionsMap s"
  by (simp_all add: updateEditorDecoration_def Let_def)

lemma updateStatusBar_keeps [simp]:
  "hideIfdefMode (updateStatusBar s) = hideIfdefMode s"
  "inactiveRegionsMap (updateStatusBar s) = inactiveRegionsMap s"
  "trace (updateStatusBar s) = trace s @ [StatusBarAssign (hideIfdefMode s)]"
  by (simp_all add: updateStatusBar_def)

lemma foldl_keeps:
  assumes "\<And>s e. g (f s e) = g s"
  shows "g (foldl f s es) = g s"
  by (induction es arbitrary: s) (simp_all add: assms)

lemma autoFoldHiddenRanges_keeps [simp]:
  "hideIfdefMode (fst (autoFoldHiddenRanges e s)) = hideIfdefMode s"
  "inactiveRegionsMap (fst (autoFoldHiddenRanges e s)) = inactiveRegionsMap s"
  by (simp_all add: autoFoldHiddenRanges_def Let_def)

lemma autoFold_loop_keeps [simp]:
  "hideIfdefMode (fst (autoFold_loop es s)) = hideIfdefMode s"
  "inactiveRegionsMap (fst (autoFold_loop es s)) = inactiveRegionsMap s"
proof -
  have "hideIfdefMode (fst (autoFold_loop es s)) = hideIfdefMode s \<and>
        inactiveRegionsMap (fst (autoFold_loop es s)) = inactiveRegionsMap s"
  proof (cases es)
    case Nil
    then show ?thesis by simp
  next
    case (Cons e es')
    obtain s' r where a: "autoFoldHiddenRanges e s = (s', r)"
      by (cases "autoFoldHiddenRanges e s")
    have "hideIfdefMode s' = hideIfdefMode s" "inactiveRegionsMap s' = inactiveRegionsMap s"
      using autoFoldHiddenRanges_keeps[of e s] a by simp_all
    then show ?thesis using Cons a by (cases r) simp_all
  qed
  then show "hideIfdefMode (fst (autoFold_loop es s)) = hideIfdefMode s"
    "inactiveRegionsMap (fst (autoFold_loop es s)) = inactiveRegionsMap s" by simp_all
qed

lemma toggle_fold_phase_keeps [simp]:
  "hideIfdefMode (fst (toggle_fold_phase h s)) = hideIfdefMode s"
  "inactiveRegionsMap (fst (toggle_fold_phase h s)) = inactiveRegionsMap s"
  by (simp_all add: toggle_fold_phase_def)

lemma toggle_unfold_loop_keeps [simp]:
  "hideIfdefMode (fst (toggle_unfold_loop h es s)) = hideIfdefMode s"
  "inactiveRegionsMap (fst (toggle_unfold_loop h es s)) = inactiveRegionsMap s"
  by (induction es) (simp_all add: Let_def)

lemma updateActive_loop_keeps [simp]:
  "hideIfdefMode (fst (updateActive_loop p d es s)) = hideIfdefMode s"
  "inactiveRegionsMap (fst (updateActive_loop p d es s)) = inactiveRegionsMap s"
  by (simp_all add: updateActive_loop_def split: list.split)

lemma updateActiveEditor_keeps [simp]:
  "hideIfdefMode (fst (updateActiveEditor p h s)) = hideIfdefMode s"
  "inactiveRegionsMap (fst (updateActiveEditor p h s)) = inactiveRegionsMap s"
proof -
  obtain d s1 where g: "getDecoration h s = (d, s1)" by (cases "getDecoration h s")
  have k: "hideIfdefMode s1 = hideIfdefMode s" "inactiveRegionsMap s1 = inactiveRegionsMap s"
    using getDecoration_keeps[of h s] g by simp_all
  show "hideIfdefMode (fst (updateActiveEditor p h s)) = hideIfdefMode s"
    "inactiveRegionsMap (fst (updateActiveEditor p h s)) = inactiveRegionsMap s"
    by (simp_all add: updateActiveEditor_def g k split: option.split)
qed

lemma decoration_loop_keeps [simp]:
  "hideIfdefMode (foldl (\<lambda>s editor. case getDecoration h s of
                          (decoration, s') \<Rightarrow> updateEditorDecoration editor decoration s') s es) =
     hideIfdefMode s"
  "inactiveRegionsMap (foldl (\<lambda>s editor. case getDecoration h s of
                          (decoration, s') \<Rightarrow> updateEditorDecoration editor decoration s') s es) =
     inactiveRegionsMap s"
  by (induction es arbitrary: s) (simp_all add: split_beta)

lemma notify_store_keeps [simp]:
  "hideIfdefMode (fst (notify_store h k r a s)) = hideIfdefMode s"
  "inactiveRegionsMap (fst (notify_store h k r a s)) = map_set (inactiveRegionsMap s) k r"
  by (simp_all add: notify_store_def Let_def)

lemma notify_unfold_loop_mode [simp]:
  "hideIfdefMode (fst (notify_unfold_loop h k r a es s)) = hideIfdefMode s"
  by (induction es) (simp_all add: Let_def)

lemma resume_mode: "hideIfdefMode (fst (resume h t s)) = hideIfdefMode s"
  by (cases t) simp_all

lemma onInactiveRegions_mode: "hideIfdefMode (fst (onInactiveRegions h p s)) = hideIfdefMode s"
  by (simp add: onInactiveRegions_def Let_def)

lemma run_mode: "hideIfdefMode (run h st) = hideIfdefMode (fst st)"
proof (induction h st rule: run.induct)
  case (1 h s)
  show ?case by simp
next
  case (2 h s t)
  then show ?case by (simp add: resume_mode)
qed

lemma next_mode:
  "MODES ! nat ((indexOf MODES m + 1) mod int (length MODES)) =
     (case m of visible \<Rightarrow> hidden | hidden \<Rightarrow> hiddenFolded | hiddenFolded \<Rightarrow> visible)"
  by (cases m) (simp_all add: MODES_def indexOf_def)

lemma toggleCommand_mode:
  "hideIfdefMode (fst (toggleCommand h s)) =
     (case hideIfdefMode s of visible \<Rightarrow> hidden | hidden \<Rightarrow> hiddenFolded | hiddenFolded \<Rightarrow> visible)"
  unfolding toggleCommand_def Let_def next_mode by simp

lemma toggle_mode:
  "hideIfdefMode (toggle_uninterrupted h s) =
     (case hideIfdefMode s of visible \<Rightarrow> hidden | hidden \<Rightarrow> hiddenFolded | hiddenFolded \<Rightarrow> visible)"
  unfolding toggle_uninterrupted_def run_mode by (rule toggleCommand_mode)

text \<open>
  Claim C6. The command \<^verbatim>\<open>ifdef.toggle\<close> moves the mode one step in the cycle
  visible, hidden, hiddenFolded, visible, and three toggles (whatever the editor shows in
  between) bring the mode back to where it was. The mode is written in the first step of the
  command, before its first \<^verbatim>\<open>await\<close>, and by nothing else: no later step of the
  command and no step of the notification handler changes it.
\<close>

theorem mode_cycle:
  "hideIfdefMode (toggle_uninterrupted h s) =
     (case hideIfdefMode s of visible \<Rightarrow> hidden | hidden \<Rightarrow> hiddenFolded | hiddenFolded \<Rightarrow> visible) \<and>
   hideIfdefMode (toggle_uninterrupted h3 (toggle_uninterrupted h2 (toggle_uninterrupted h1 s))) =
     hideIfdefMode s \<and>
   hideIfdefMode (fst (toggleCommand h s)) =
     (case hideIfdefMode s of visible \<Rightarrow> hidden | hidden \<Rightarrow> hiddenFolded | hiddenFolded \<Rightarrow> visible) \<and>
   hideIfdefMode (fst (resume h t s)) = hideIfdefMode s \<and>
   hideIfdefMode (fst (onInactiveRegions h p s)) = hideIfdefMode s"
  by (cases "hideIfdefMode s")
     (simp_all add: toggle_mode toggleCommand_mode resume_mode onInactiveRegions_mode)

lemma autoFold_loop_fold_phase:
  "snd (autoFold_loop es s) = Some t \<Longrightarrow> fold_phase t"
  by (cases es) (auto split: prod.splits option.splits)

lemma resume_fold_phase:
  assumes "fold_phase t"
  shows "inactiveRegionsMap (fst (resume h t s)) = inactiveRegionsMap s"
    and "snd (resume h t s) = Some t' \<Longrightarrow> fold_phase t'"
  using assms autoFold_loop_fold_phase by (cases t; auto)+

lemma run_fold_phase_map:
  "(\<forall>t. snd st = Some t \<longrightarrow> fold_phase t) \<Longrightarrow>
   inactiveRegionsMap (run h st) = inactiveRegionsMap (fst st)"
proof (induction h st rule: run.induct)
  case (1 h s)
  show ?case by simp
next
  case (2 h s t)
  have f: "fold_phase t" using "2.prems" by simp
  have "\<forall>t'. snd (resume h t s) = Some t' \<longrightarrow> fold_phase t'"
    using resume_fold_phase(2)[OF f] by blast
  from "2.IH"[OF this] show ?case using resume_fold_phase(1)[OF f] by simp
qed

lemma run_notify_store_map:
  "inactiveRegionsMap (run h (notify_store h k r a s)) = map_set (inactiveRegionsMap s) k r"
proof -
  have "\<forall>t. snd (notify_store h k r a s) = Some t \<longrightarrow> fold_phase t"
    unfolding notify_store_def Let_def using autoFold_loop_fold_phase by blast
  from run_fold_phase_map[OF this] show ?thesis by simp
qed

lemma run_notify_unfold_loop_map:
  "inactiveRegionsMap (run h (notify_unfold_loop h k r a es s)) =
     map_set (inactiveRegionsMap s) k r"
proof (induction es arbitrary: s)
  case Nil
  show ?case by (simp add: run_notify_store_map)
next
  case (Cons e es)
  show ?case by (simp add: Let_def Cons.IH)
qed

lemma onInactiveRegions_map:
  "inactiveRegionsMap (notification_uninterrupted h p s) =
     map_set (inactiveRegionsMap s) (params_docKey p)
       (map (\<lambda>region. Range_new (lsp_start region) (lsp_end region)) (params_regions p))"
  unfolding notification_uninterrupted_def onInactiveRegions_def Let_def
  by (simp add: run_notify_store_map run_notify_unfold_loop_map)

text \<open>
  Claim C8. Storing under a key replaces what was stored: after two stores the second list
  is read, and the cache is the one a single store of the second list gives; after a store
  of the empty list the empty list is read, and in a document without directive lines the
  folding ranges computed from it are none; storing the same list twice is storing it once;
  a key never stored reads as the empty list. The notification handler stores exactly the
  ranges built from the notification, under its key.
\<close>

theorem region_cache_replace:
  "map_get_or_empty (map_set (map_set m k R1) k R2) k = R2 \<and>
   map_set (map_set m k R1) k R2 = map_set m k R2 \<and>
   map_get_or_empty (map_set m k []) k = [] \<and>
   ((\<forall>i < lineCount d. \<not> regex_test PREPROCESSOR_REGEX (line_text (lineAt d i))) \<longrightarrow>
      collectHiddenFoldingRanges d (map_get_or_empty (map_set (map_set m k R1) k []) k) = []) \<and>
   map_get_or_empty (map_set (map_set m k R) k R) k = R \<and>
   map_set (map_set m k R) k R = map_set m k R \<and>
   (m k = None \<longrightarrow> map_get_or_empty m k = []) \<and>
   inactiveRegionsMap (notification_uninterrupted h p s) =
     map_set (inactiveRegionsMap s) (params_docKey p)
       (map (\<lambda>region. Range_new (lsp_start region) (lsp_end region)) (params_regions p))"
proof -
  have "collectHiddenFoldingRanges d [] = []"
    if "\<forall>i < lineCount d. \<not> regex_test PREPROCESSOR_REGEX (line_text (lineAt d i))"
    using hiddenLines_empty[OF that] by (simp add: collectHiddenFoldingRanges_def)
  then show ?thesis
    by (simp add: map_get_or_empty_def map_set_def onInactiveRegions_map[unfolded map_set_def])
qed

theorem region_cache_replace_witness:
  "filter (\<lambda>i. regex_test PREPROCESSOR_REGEX (line_text (lineAt empty_doc i)))
     [0 ..< lineCount empty_doc] = [] \<and>
   collectHiddenFoldingRanges empty_doc
     (map_get_or_empty
        (map_set (map_set Map.empty (js ''/src/b.c'') [scenario_region 0 6]) (js ''/src/b.c'') [])
        (js ''/src/b.c'')) = [] \<and>
   (Map.empty :: jsstring \<rightharpoonup> Range list) (js ''/src/b.c'') = None \<and>
   map_get_or_empty (Map.empty :: jsstring \<rightharpoonup> Range list) (js ''/src/b.c'') = []"
  using region_cache_replace[of Map.empty "js ''/src/b.c''" "[scenario_region 0 6]" "[]"
      empty_doc "[]" scenario_host scenario_params "scenario_state hidden []"]
    empty_doc_no_directive
  by (simp add: filter_empty_conv map_get_or_empty_def map_set_def)

text \<open>
  Claim C7. For a supported document \<^verbatim>\<open>updateEditorDecoration\<close> sets, as decorations,
  the ranges \<open>decorationRanges\<close> of the mode, the cached inactive ranges and the ranges of
  the directive lines (and sets nothing for any other document). In the mode visible these
  are the inactive ranges; in the modes hidden and hiddenFolded they are the ranges of the
  mode visible followed by the ranges of the directive lines, hence a superset.
\<close>

theorem decoration_superset:
  "trace (updateEditorDecoration e dt s) = trace s @
     (if supported (document e)
      then [SetDecorations e dt
              (decorationRanges (hideIfdefMode s)
                 (map_get_or_empty (inactiveRegionsMap s) (docKey (document e)))
                 (preprocessorRanges (document e)))]
      else []) \<and>
   decorationRanges visible ia pr = ia \<and>
   decorationRanges hidden ia pr = decorationRanges visible ia pr @ pr \<and>
   decorationRanges hiddenFolded ia pr = decorationRanges visible ia pr @ pr \<and>
   set (decorationRanges visible ia pr) \<subseteq> set (decorationRanges hidden ia pr) \<and>
   set (decorationRanges visible ia pr) \<subseteq> set (decorationRanges hiddenFolded ia pr)"
  by (simp add: updateEditorDecoration_def decorationRanges_def Let_def)

theorem decoration_superset_witness:
  "supported (document scenario_editor) \<and>
   trace (updateEditorDecoration scenario_editor \<lparr>deco_key = 0, deco_opacity = js ''0''\<rparr>
            (scenario_state hidden [scenario_region 0 6])) =
     [SetDecorations scenario_editor \<lparr>deco_key = 0, deco_opacity = js ''0''\<rparr>
        (decorationRanges visible [scenario_region 0 6] (preprocessorRanges scenario_doc)
           @ preprocessorRanges scenario_doc)]"
proof -
  have d: "document scenario_editor = scenario_doc"
    by (simp add: scenario_editor_def)
  show ?thesis
    using decoration_superset[of scenario_editor "\<lparr>deco_key = 0, deco_opacity = js ''0''\<rparr>"
        "scenario_state hidden [scenario_region 0 6]" "[scenario_region 0 6]"
        "preprocessorRanges scenario_doc"]
    by (simp add: d scenario_supported scenario_state_def map_get_or_empty_def)
qed

text \<open>
  Claim C9. The target opacity of \<^verbatim>\<open>getDecoration\<close> is the opacity of
  \<^verbatim>\<open>ifdef.opacity\<close> when the mode is not visible and that of clangd when it is.
  With a cached decoration type of that opacity, the cached one is returned and nothing
  changes. With a cached one of another opacity, it is disposed and a new one of the target
  opacity is created, cached and returned. With none cached, a new one is created, cached
  and returned.
\<close>

theorem getDecoration_cached:
  "(lastDecoration s = Some d \<and>
    lastOpacity s = (if hideIfdefMode s \<noteq> visible then hideIfdefOpacity h else clangdOpacity h)
      \<longrightarrow> getDecoration h s = (d, s)) \<and>
   (lastDecoration s = Some d \<and>
    lastOpacity s \<noteq> (if hideIfdefMode s \<noteq> visible then hideIfdefOpacity h else clangdOpacity h)
      \<longrightarrow> fst (getDecoration h s) =
            \<lparr>deco_key = decorationsCreated s,
             deco_opacity = (if hideIfdefMode s \<noteq> visible then hideIfdefOpacity h else clangdOpacity h)\<rparr> \<and>
          trace (snd (getDecoration h s)) =
            trace s @ [DisposeDecoration d, CreateDecoration (fst (getDecoration h s))] \<and>
          lastDecoration (snd (getDecoration h s)) = Some (fst (getDecoration h s)) \<and>
          lastOpacity (snd (getDecoration h s)) =
            (if hideIfdefMode s \<noteq> visible then hideIfdefOpacity h else clangdOpacity h)) \<and>
   (lastDecoration s = None
      \<longrightarrow> fst (getDecoration h s) =
            \<lparr>deco_key = decorationsCreated s,
             deco_opacity = (if hideIfdefMode s \<noteq> visible then hideIfdefOpacity h else clangdOpacity h)\<rparr> \<and>
          trace (snd (getDecoration h s)) =
            trace s @ [CreateDecoration (fst (getDecoration h s))] \<and>
          lastDecoration (snd (getDecoration h s)) = Some (fst (getDecoration h s)) \<and>
          lastOpacity (snd (getDecoration h s)) =
            (if hideIfdefMode s \<noteq> visible then hideIfdefOpacity h else clangdOpacity h))"
  by (simp add: getDecoration_def Let_def)

theorem getDecoration_cached_witness:
  "lastDecoration scenario_cached_state = Some \<lparr>deco_key = 0, deco_opacity = js ''0''\<rparr> \<and>
   lastOpacity scenario_cached_state = hideIfdefOpacity scenario_host \<and>
   getDecoration scenario_host scenario_cached_state =
     (\<lparr>deco_key = 0, deco_opacity = js ''0''\<rparr>, scenario_cached_state) \<and>
   lastOpacity scenario_cached_state \<noteq> clangdOpacity scenario_host \<and>
   trace (snd (getDecoration scenario_host (scenario_cached_state\<lparr>hideIfdefMode := visible\<rparr>))) =
     [DisposeDecoration \<lparr>deco_key = 0, deco_opacity = js ''0''\<rparr>,
      CreateDecoration \<lparr>deco_key = 1, deco_opacity = js ''0.55''\<rparr>] \<and>
   lastDecoration (scenario_state hidden []) = None \<and>
   trace (snd (getDecoration scenario_host (scenario_state hidden []))) =
     [CreateDecoration \<lparr>deco_key = 0, deco_opacity = js ''0''\<rparr>]"
proof -
  have ne: "js ''0'' \<noteq> js ''0.55''" by (simp add: js_def)
  show ?thesis
    using getDecoration_cached[of scenario_cached_state
         "\<lparr>deco_key = 0, deco_opacity = js ''0''\<rparr>" scenario_host]
      getDecoration_cached[of "scenario_cached_state\<lparr>hideIfdefMode := visible\<rparr>"
         "\<lparr>deco_key = 0, deco_opacity = js ''0''\<rparr>" scenario_host]
      getDecoration_cached[of "scenario_state hidden []"
         "\<lparr>deco_key = 0, deco_opacity = js ''0''\<rparr>" scenario_host]
    by (simp add: scenario_cached_state_def scenario_host_def scenario_state_def ne)
qed

section \<open>The effects of the handlers\<close>

lemma decorates_refl: "decorates s s"
  by (simp add: decorates_def)

lemma decorates_trans: "decorates s s' \<Longrightarrow> decorates s' s'' \<Longrightarrow> decorates s s''"
  unfolding decorates_def by (metis append.assoc list_all_append)

lemma decorates_getDecoration: "decorates s (snd (getDecoration h s))"
  by (simp add: decorates_def getDecoration_def Let_def split: option.split)

lemma decorates_updateEditorDecoration: "decorates s (updateEditorDecoration e d s)"
  by (simp add: decorates_def updateEditorDecoration_def Let_def)



lemma unfold_commands_append:
  "unfold_commands (xs @ ys) = unfold_commands xs @ unfold_commands ys"
  by (induction xs rule: unfold_commands.induct) simp_all

lemma fold_commands_append:
  "fold_commands (xs @ ys) = fold_commands xs @ fold_commands ys"
  by (induction xs rule: fold_commands.induct) simp_all


lemma decoration_no_commands:
  "list_all is_decoration_effect D \<Longrightarrow>
   unfold_commands D = [] \<and> fold_commands D = [] \<and> cache_stores D = []"
proof (induction D)
  case Nil
  show ?case by simp
next
  case (Cons e D)
  then show ?case by (cases e) simp_all
qed

lemma fold_ne_unfold: "js ''editor.fold'' \<noteq> js ''editor.unfold''"
  by (simp add: js_def)

text \<open>A loop of \<^verbatim>\<open>autoFoldHiddenRanges\<close> that nothing interrupts.\<close>

lemma run_autoFold_loop:
  "run h (autoFold_loop es s) =
     s\<lparr>trace := trace s @ concat (map (\<lambda>e.
         if hideIfdefMode s \<noteq> hiddenFolded then []
         else if \<not> supported (document e) then []
         else (let f = collectHiddenFoldingRanges (document e)
                         (map_get_or_empty (inactiveRegionsMap s) (docKey (document e)))
               in if f = [] then []
                  else [Timeout 100, ExecuteCommand (js ''editor.fold'') (map fold_start f) 1])) es)\<rparr>"
proof (induction es arbitrary: s)
  case Nil
  show ?case by simp
next
  case (Cons e es)
  show ?case
    by (simp add: autoFoldHiddenRanges_def Let_def Cons.IH emit_def cong: if_cong)
qed













section \<open>The toggle command\<close>

lemma run_updateActive_loop:
  "\<exists>s'. decorates s s' \<and>
     run h (updateActive_loop p d es s) = run h (resume h (ToggleAfterUpdateActive p) s')"
proof (induction es arbitrary: s)
  case Nil
  show ?case
    using decorates_refl[of s] by (auto simp: updateActive_loop_def simp del: resume.simps)
next
  case (Cons e es)
  obtain s' where s': "decorates (updateEditorDecoration e d s) s'"
    "run h (updateActive_loop p d es (updateEditorDecoration e d s)) =
     run h (resume h (ToggleAfterUpdateActive p) s')"
    using Cons.IH by blast
  have "run h (updateActive_loop p d (e # es) s) =
        run h (updateActive_loop p d es (updateEditorDecoration e d s))"
    by (simp add: updateActive_loop_def)
  then show ?case
    using s' decorates_trans[OF decorates_updateEditorDecoration s'(1)] by metis
qed

lemma run_updateActiveEditor:
  "\<exists>s'. decorates s s' \<and>
     run h (updateActiveEditor p h s) = run h (resume h (ToggleAfterUpdateActive p) s')"
proof -
  obtain d s1 where g: "getDecoration h s = (d, s1)" by (cases "getDecoration h s")
  have d1: "decorates s s1" using decorates_getDecoration[of s h] g by simp
  show ?thesis
  proof (cases "activeTextEditor h")
    case None
    obtain s' where "decorates s1 s'"
      "run h (updateActive_loop p d
         (filter (\<lambda>e. Some e \<noteq> (None :: TextEditor option)) (visibleTextEditors h)) s1) =
       run h (resume h (ToggleAfterUpdateActive p) s')"
      using run_updateActive_loop by blast
    then show ?thesis
      using decorates_trans[OF d1] by (auto simp: updateActiveEditor_def g None simp del: resume.simps)
  next
    case (Some a)
    obtain s' where s': "decorates (updateEditorDecoration a d s1) s'"
      "run h (updateActive_loop p d (filter (\<lambda>e. e \<noteq> a) (visibleTextEditors h))
         (updateEditorDecoration a d s1)) =
       run h (resume h (ToggleAfterUpdateActive p) s')"
      using run_updateActive_loop by blast
    have "run h (updateActiveEditor p h s) =
          run h (updateActive_loop p d (filter (\<lambda>e. e \<noteq> a) (visibleTextEditors h))
            (updateEditorDecoration a d s1))"
      by (simp add: updateActiveEditor_def g Some)
    then show ?thesis
      using s' decorates_trans[OF d1 decorates_trans[OF decorates_updateEditorDecoration s'(1)]]
      by metis
  qed
qed

lemma run_toggle_unfold_loop:
  "run h (toggle_unfold_loop h es s) =
   run h (toggle_fold_phase h
     (s\<lparr>trace := trace s @ concat (map (\<lambda>e.
         let f = collectHiddenFoldingRanges (document e)
                   (map_get_or_empty (inactiveRegionsMap s) (docKey (document e)))
         in if f = [] then []
            else [ExecuteCommand (js ''editor.unfold'') (map fold_start f) 1]) es)\<rparr>))"
proof (induction es arbitrary: s)
  case Nil
  show ?case by simp
next
  case (Cons e es)
  show ?case by (simp add: Let_def Cons.IH emit_def)
qed

lemma run_toggle_fold_phase:
  "run h (toggle_fold_phase h s) =
     s\<lparr>trace := trace s @ concat (map (\<lambda>e.
         if hideIfdefMode s \<noteq> hiddenFolded then []
         else if \<not> supported (document e) then []
         else (let f = collectHiddenFoldingRanges (document e)
                         (map_get_or_empty (inactiveRegionsMap s) (docKey (document e)))
               in if f = [] then []
                  else [Timeout 100, ExecuteCommand (js ''editor.fold'') (map fold_start f) 1]))
         (visibleTextEditors h))\<rparr>"
  by (simp add: toggle_fold_phase_def run_autoFold_loop)

text \<open>The effects of a toggle command that nothing interrupts.\<close>

lemma toggle_trace:
  "\<exists>D. list_all is_decoration_effect D \<and>
     trace (toggle_uninterrupted h s) =
       trace s @
       [WorkspaceStateUpdate (hideIfdefMode (toggle_uninterrupted h s)), FoldingChangeFire,
        StatusBarAssign (hideIfdefMode (toggle_uninterrupted h s))] @ D @
       (if hideIfdefMode s = hiddenFolded
        then concat (map (\<lambda>e.
               let f = collectHiddenFoldingRanges (document e)
                         (map_get_or_empty (inactiveRegionsMap s) (docKey (document e)))
               in if f = [] then []
                  else [ExecuteCommand (js ''editor.unfold'') (map fold_start f) 1])
               (visibleTextEditors h))
        else []) @
       (if hideIfdefMode s = hidden
        then concat (map (\<lambda>e.
               if \<not> supported (document e) then []
               else (let f = collectHiddenFoldingRanges (document e)
                               (map_get_or_empty (inactiveRegionsMap s) (docKey (document e)))
                     in if f = [] then []
                        else [Timeout 100,
                              ExecuteCommand (js ''editor.fold'') (map fold_start f) 1]))
               (visibleTextEditors h))
        else [])"
proof -
  define m where "m = (case hideIfdefMode s of visible \<Rightarrow> hidden | hidden \<Rightarrow> hiddenFolded
                        | hiddenFolded \<Rightarrow> visible)"
  define z where "z = updateStatusBar (emit FoldingChangeFire
                        (fst (toggleCommand h s)))"
  have tm: "hideIfdefMode (toggle_uninterrupted h s) = m"
    unfolding m_def by (rule toggle_mode)
  have sn: "snd (toggleCommand h s) = Some (ToggleAfterPersist (hideIfdefMode s))"
    by (simp add: toggleCommand_def Let_def)
  have eq: "toggle_uninterrupted h s = run h (updateActiveEditor (hideIfdefMode s) h z)"
    unfolding toggle_uninterrupted_def z_def
    using sn by (cases "toggleCommand h s") simp
  have mz: "hideIfdefMode z = m" and cz: "inactiveRegionsMap z = inactiveRegionsMap s"
    and tz: "trace z = trace s @ [WorkspaceStateUpdate m, FoldingChangeFire, StatusBarAssign m]"
    unfolding z_def m_def toggleCommand_def Let_def next_mode
    by (simp_all add: updateStatusBar_def)
  obtain y where y: "decorates z y"
    "run h (updateActiveEditor (hideIfdefMode s) h z) =
     run h (resume h (ToggleAfterUpdateActive (hideIfdefMode s)) y)"
    using run_updateActiveEditor by blast
  obtain D where D: "trace y = trace z @ D" "list_all is_decoration_effect D"
    and my: "hideIfdefMode y = m" and cy: "inactiveRegionsMap y = inactiveRegionsMap s"
    using y(1) mz cz unfolding decorates_def by auto
  have "trace (toggle_uninterrupted h s) =
       trace s @ [WorkspaceStateUpdate m, FoldingChangeFire, StatusBarAssign m] @ D @
       (if hideIfdefMode s = hiddenFolded
        then concat (map (\<lambda>e.
               let f = collectHiddenFoldingRanges (document e)
                         (map_get_or_empty (inactiveRegionsMap s) (docKey (document e)))
               in if f = [] then []
                  else [ExecuteCommand (js ''editor.unfold'') (map fold_start f) 1])
               (visibleTextEditors h))
        else []) @
       (if hideIfdefMode s = hidden
        then concat (map (\<lambda>e.
               if \<not> supported (document e) then []
               else (let f = collectHiddenFoldingRanges (document e)
                               (map_get_or_empty (inactiveRegionsMap s) (docKey (document e)))
                     in if f = [] then []
                        else [Timeout 100,
                              ExecuteCommand (js ''editor.fold'') (map fold_start f) 1]))
               (visibleTextEditors h))
        else [])"
    unfolding eq y(2)
    by (cases "hideIfdefMode s")
       (simp_all add: my cy D tz m_def run_toggle_unfold_loop run_toggle_fold_phase
          cong: if_cong)
  then show ?thesis unfolding tm using D(2) by blast
qed

lemma unfold_commands_concat:
  "unfold_commands (concat (map E es)) = concat (map (\<lambda>e. unfold_commands (E e)) es)"
  by (induction es) (simp_all add: unfold_commands_append)

lemma fold_commands_concat:
  "fold_commands (concat (map E es)) = concat (map (\<lambda>e. fold_commands (E e)) es)"
  by (induction es) (simp_all add: fold_commands_append)

lemma unfold_of_unfolds:
  "unfold_commands (concat (map (\<lambda>e.
         let f = G e
         in if f = [] then []
            else [ExecuteCommand (js ''editor.unfold'') (map fold_start f) 1]) es)) =
   concat (map (\<lambda>e. let f = G e in if f = [] then [] else [map fold_start f]) es)"
  unfolding unfold_commands_concat
  by (simp add: Let_def if_distrib[of unfold_commands] cong: if_cong)

lemma fold_of_unfolds:
  "fold_commands (concat (map (\<lambda>e.
         let f = G e
         in if f = [] then []
            else [ExecuteCommand (js ''editor.unfold'') (map fold_start f) 1]) es)) = []"
  unfolding fold_commands_concat using fold_ne_unfold
  by (simp add: Let_def if_distrib[of fold_commands] cong: if_cong)

lemma unfold_of_folds:
  "unfold_commands (concat (map (\<lambda>e.
         if \<not> S e then []
         else (let f = G e
               in if f = [] then []
                  else [Timeout 100, ExecuteCommand (js ''editor.fold'') (map fold_start f) 1]))
         es)) = []"
  unfolding unfold_commands_concat using fold_ne_unfold
  by (simp add: Let_def if_distrib[of unfold_commands] cong: if_cong)

text \<open>
  A toggle command that nothing interrupts, started in the mode hiddenFolded, ends in the
  mode visible; the unfold commands it issues are, for each visible editor in turn whose
  folding ranges (from the cache and the text of its document) are not empty, one command
  whose lines are the start lines of all these ranges; and it issues no fold command.
  Started in any other mode it issues no unfold command.
\<close>

lemma toggle_uninterrupted_unfolds:
  "(hideIfdefMode s = hiddenFolded \<longrightarrow>
      hideIfdefMode (toggle_uninterrupted h s) = visible \<and>
      unfold_commands (trace (toggle_uninterrupted h s)) =
        unfold_commands (trace s) @
        concat (map (\<lambda>e.
          let f = collectHiddenFoldingRanges (document e)
                    (map_get_or_empty (inactiveRegionsMap s) (docKey (document e)))
          in if f = [] then [] else [map fold_start f]) (visibleTextEditors h)) \<and>
      fold_commands (trace (toggle_uninterrupted h s)) = fold_commands (trace s)) \<and>
   (hideIfdefMode s \<noteq> hiddenFolded \<longrightarrow>
      unfold_commands (trace (toggle_uninterrupted h s)) = unfold_commands (trace s))"
proof -
  obtain D where D: "list_all is_decoration_effect D" and
    t: "trace (toggle_uninterrupted h s) =
       trace s @
       [WorkspaceStateUpdate (hideIfdefMode (toggle_uninterrupted h s)), FoldingChangeFire,
        StatusBarAssign (hideIfdefMode (toggle_uninterrupted h s))] @ D @
       (if hideIfdefMode s = hiddenFolded
        then concat (map (\<lambda>e.
               let f = collectHiddenFoldingRanges (document e)
                         (map_get_or_empty (inactiveRegionsMap s) (docKey (document e)))
               in if f = [] then []
                  else [ExecuteCommand (js ''editor.unfold'') (map fold_start f) 1])
               (visibleTextEditors h))
        else []) @
       (if hideIfdefMode s = hidden
        then concat (map (\<lambda>e.
               if \<not> supported (document e) then []
               else (let f = collectHiddenFoldingRanges (document e)
                               (map_get_or_empty (inactiveRegionsMap s) (docKey (document e)))
                     in if f = [] then []
                        else [Timeout 100,
                              ExecuteCommand (js ''editor.fold'') (map fold_start f) 1]))
               (visibleTextEditors h))
        else [])"
    using toggle_trace[of h s] by blast
  have nd: "unfold_commands D = []" "fold_commands D = []"
    using decoration_no_commands[OF D] by simp_all
  have a: "hideIfdefMode (toggle_uninterrupted h s) = visible" if "hideIfdefMode s = hiddenFolded"
    using that by (simp add: toggle_mode)
  have b: "unfold_commands (trace (toggle_uninterrupted h s)) =
        unfold_commands (trace s) @
        concat (map (\<lambda>e.
          let f = collectHiddenFoldingRanges (document e)
                    (map_get_or_empty (inactiveRegionsMap s) (docKey (document e)))
          in if f = [] then [] else [map fold_start f]) (visibleTextEditors h))"
    if "hideIfdefMode s = hiddenFolded"
    unfolding t using that by (simp add: unfold_commands_append nd unfold_of_unfolds)
  have c: "fold_commands (trace (toggle_uninterrupted h s)) = fold_commands (trace s)"
    if "hideIfdefMode s = hiddenFolded"
    unfolding t using that by (simp add: fold_commands_append nd fold_of_unfolds)
  have d: "unfold_commands (trace (toggle_uninterrupted h s)) = unfold_commands (trace s)"
    if "hideIfdefMode s \<noteq> hiddenFolded"
    unfolding t using that by (simp add: unfold_commands_append nd unfold_of_folds)
  show ?thesis using a b c d by blast
qed

text \<open>
  Claim C5. A fold command can remain pending when the toggle command has brought the mode
  from hiddenFolded to visible. With the notification handler suspended in
  \<^verbatim>\<open>autoFoldHiddenRanges\<close> at its timer, for the block from line 2 to line 4, the toggle
  command ends in the mode visible, having issued the unfold command for line 2 and no fold
  command; when the timer fires, \<^verbatim>\<open>autoFoldHiddenRanges\<close> issues the fold command for
  line 2, in the mode visible: it tests the mode before the timer and not after it.
\<close>

theorem toggle_leaves_parked_fold:
  "hideIfdefMode (fst scenario_fold_parked) = hiddenFolded \<and>
   snd scenario_fold_parked =
     Some (AutoFoldTimer [\<lparr>fold_start = 2, fold_end = 4, fold_kind = Region\<rparr>] []) \<and>
   unfold_commands (trace (fst scenario_fold_parked)) = [] \<and>
   fold_commands (trace (fst scenario_fold_parked)) = [] \<and>
   collectHiddenFoldingRanges scenario_doc
     (map_get_or_empty (inactiveRegionsMap (fst scenario_fold_parked)) (docKey scenario_doc)) =
     [\<lparr>fold_start = 2, fold_end = 4, fold_kind = Region\<rparr>] \<and>
   hideIfdefMode scenario_toggled_visible = visible \<and>
   unfold_commands (trace scenario_toggled_visible) = [[2]] \<and>
   fold_commands (trace scenario_toggled_visible) = [] \<and>
   hideIfdefMode (fst scenario_parked_fold_resumed) = visible \<and>
   trace (fst scenario_parked_fold_resumed) =
     trace scenario_toggled_visible @ [ExecuteCommand (js ''editor.fold'') [2] 1] \<and>
   fold_commands (trace (fst scenario_parked_fold_resumed)) = [[2]]"
  by code_simp

section \<open>The notification handler\<close>








end
